theory Spec2Isabelle
  imports
    Main
    "HOL-Library.Char_ord"
    "HOL-Library.List_Lexorder"
    "HOL-Library.Product_Lexorder"
    "HOL-Library.Multiset"
begin

section \<open>Strings as todo.py uses them\<close>

text \<open>
  The program's strings are modelled as \<^typ>\<open>string\<close>. The session loop only ever
  inserts the printable ASCII keys 32..126 into the input field, so the text that reaches the
  store through the program is ASCII; \<open>lower\<close> and \<open>strip\<close> below are Python's
  \<^verbatim>\<open>str.lower\<close> and \<^verbatim>\<open>str.strip\<close> on ASCII text, and characters outside
  ASCII are left alone. Strings compare lexicographically by character code, as Python's do.
\<close>

definition startswith :: "string \<Rightarrow> string \<Rightarrow> bool" where
  "startswith s p \<longleftrightarrow> take (length p) s = p"

definition is_space :: "char \<Rightarrow> bool" where
  "is_space c \<longleftrightarrow> c \<in> set [CHR 0x09, CHR 0x0A, CHR 0x0B, CHR 0x0C, CHR 0x0D,
                            CHR 0x1C, CHR 0x1D, CHR 0x1E, CHR 0x1F, CHR 0x20]"

definition strip :: "string \<Rightarrow> string" where
  "strip s = rev (dropWhile is_space (rev (dropWhile is_space s)))"

definition lower_char :: "char \<Rightarrow> char" where
  "lower_char c =
     (if CHR ''A'' \<le> c \<and> c \<le> CHR ''Z'' then char_of (of_char c + (32::nat)) else c)"

definition lower :: "string \<Rightarrow> string" where
  "lower s = map lower_char s"

text \<open>\<^verbatim>\<open>':' in task\<close>\<close>

definition has_colon :: "string \<Rightarrow> bool" where
  "has_colon s \<longleftrightarrow> CHR '':'' \<in> set s"

text \<open>
  \<^verbatim>\<open>task.split(':', 1)\<close>: a list of one element when there is no colon, of two
  (the text before the first colon and the text after it) otherwise. The source only
  indexes it after testing \<^verbatim>\<open>':' in task\<close>; \<open>split_0\<close> and \<open>split_1\<close> are
  \<^verbatim>\<open>[0]\<close> and \<^verbatim>\<open>[1]\<close> of the result, the latter taken only under that test.
\<close>

definition split_colon :: "string \<Rightarrow> string list" where
  "split_colon s =
     (if has_colon s
      then [takeWhile (\<lambda>c. c \<noteq> CHR '':'') s, drop 1 (dropWhile (\<lambda>c. c \<noteq> CHR '':'') s)]
      else [s])"

definition split_0 :: "string \<Rightarrow> string" where
  "split_0 s = (case split_colon s of x # _ \<Rightarrow> x | [] \<Rightarrow> [])"

definition split_1 :: "string \<Rightarrow> string" where
  "split_1 s = (case split_colon s of _ # y # _ \<Rightarrow> y | _ \<Rightarrow> [])"

section \<open>Records of the store\<close>

text \<open>
  A record of the file is a JSON object. Every function of the source reads
  \<^verbatim>\<open>todo['task']\<close> unconditionally, so the model's records always carry a task; the
  keys \<^verbatim>\<open>'id'\<close> and \<^verbatim>\<open>'done'\<close> are read with \<^verbatim>\<open>in\<close> and
  \<^verbatim>\<open>.get\<close> in places and may be absent (\<open>None\<close>). \<open>extra\<close> holds whatever other
  keys the object has.
\<close>

record todo =
  tid :: "string option"
  task :: string
  tdone :: "bool option"
  extra :: "(string \<times> string) list"

datatype error = KeyError | IndexError

text \<open>\<^verbatim>\<open>todo.get('done', False)\<close>\<close>

definition get_done :: "todo \<Rightarrow> bool" where
  "get_done t = (case tdone t of None \<Rightarrow> False | Some b \<Rightarrow> b)"

text \<open>Truth value of a Python \<^verbatim>\<open>str\<close> or \<^verbatim>\<open>None\<close> in a condition.\<close>

definition truthy :: "string option \<Rightarrow> bool" where
  "truthy x = (case x of None \<Rightarrow> False | Some s \<Rightarrow> s \<noteq> [])"

section \<open>Entity codec\<close>

text \<open>
  The priority prefix is tested and removed the same way in \<^verbatim>\<open>get_sort_key\<close>,
  \<^verbatim>\<open>get_todo_group\<close>, \<^verbatim>\<open>build_selectable_items\<close> and the drawing loop of
  \<^verbatim>\<open>main\<close>: \<^verbatim>\<open>'!! '\<close> first, then \<^verbatim>\<open>'! '\<close>. Priorities are the source's
  numbers: 2 (red, high), 1 (yellow, low), 0 (none).
\<close>

definition get_priority :: "string \<Rightarrow> nat" where
  "get_priority t =
     (if startswith t ''!! '' then 2 else if startswith t ''! '' then 1 else 0)"

definition clean_task :: "string \<Rightarrow> string" where
  "clean_task t =
     (if startswith t ''!! '' then drop 3 t else if startswith t ''! '' then drop 2 t else t)"

definition ungrouped :: string where
  "ungrouped = ''__ungrouped__''"

definition get_todo_group :: "todo \<Rightarrow> string" where
  "get_todo_group t =
     (let c = clean_task (task t)
      in if has_colon c then strip (split_0 c) else ungrouped)"

text \<open>
  The text drawn for an item (the drawing loop of \<^verbatim>\<open>main\<close>): the stripped part after
  the first colon for a grouped item, the whole priority-free text otherwise.
\<close>

definition display_text :: "todo \<Rightarrow> string" where
  "display_text t =
     (let c = clean_task (task t)
      in if has_colon c then strip (split_1 c) else c)"

definition decoded :: "todo \<Rightarrow> string option \<times> nat \<times> string \<times> string \<times> bool option" where
  "decoded t = (tid t, get_priority (task t), get_todo_group t, display_text t, tdone t)"

section \<open>Store\<close>

text \<open>
  The world outside a session: the shared file (\<open>None\<close> when it does not exist, otherwise
  the JSON list it holds) and the source of \<^verbatim>\<open>uuid.uuid4()\<close>, an arbitrary sequence of
  strings read at a counter.
\<close>

record world =
  todo_file :: "todo list option"
  uuid_src :: "nat \<Rightarrow> string"
  uuid_ctr :: nat

fun backfill :: "(nat \<Rightarrow> string) \<Rightarrow> nat \<Rightarrow> todo list \<Rightarrow> todo list \<times> nat" where
  "backfill U n [] = ([], n)"
| "backfill U n (t # ts) =
     (case tid t of
        None \<Rightarrow> (let (r, m) = backfill U (Suc n) ts in (t\<lparr>tid := Some (U n)\<rparr> # r, m))
      | Some _ \<Rightarrow> (let (r, m) = backfill U n ts in (t # r, m)))"

definition load_todos :: "world \<Rightarrow> todo list \<times> world" where
  "load_todos w =
     (case todo_file w of
        None \<Rightarrow> ([], w)
      | Some ts \<Rightarrow> (let (r, m) = backfill (uuid_src w) (uuid_ctr w) ts
                   in (r, w\<lparr>uuid_ctr := m\<rparr>)))"

definition get_sort_key :: "todo \<Rightarrow> nat \<times> string \<times> string" where
  "get_sort_key t =
     (let c = clean_task (task t)
      in if has_colon c
         then (0, lower (strip (split_0 c)), lower (strip (split_1 c)))
         else (1, [], lower c))"

definition save_todos :: "todo list \<Rightarrow> world \<Rightarrow> world" where
  "save_todos todos w =
     (let (current_todos, w1) = load_todos w;
          our_ids = map tid (filter (\<lambda>t. tid t \<noteq> None) todos);
          new_items = filter (\<lambda>t. tid t \<notin> set our_ids) current_todos;
          merged = todos @ new_items
      in w1\<lparr>todo_file := Some (sort_key get_sort_key merged)\<rparr>)"

section \<open>Group model\<close>

text \<open>
  An entry of the selectable list: \<^verbatim>\<open>('todo', todo_index)\<close> or
  \<^verbatim>\<open>('group', group_name)\<close>.
\<close>

datatype entry = Todo nat | Group string

text \<open>
  The first loop of \<^verbatim>\<open>build_selectable_items\<close> fills the dictionary \<open>groups\<close>
  and the list \<open>group_order\<close>. \<open>add_to_group\<close> is the body shared by its two branches:
  create the bucket on first sight, then append the index.
\<close>

type_synonym buckets = "(string \<rightharpoonup> nat list) \<times> string list"

text \<open>
  \<^verbatim>\<open>groups[name]\<close>; every name it is read at was stored before, so the
  \<^verbatim>\<open>KeyError\<close> of a missing name cannot happen (\<open>bucket_todos_dom\<close> below).
\<close>

definition lookup_group :: "(string \<rightharpoonup> nat list) \<Rightarrow> string \<Rightarrow> nat list" where
  "lookup_group groups g = (case groups g of Some l \<Rightarrow> l | None \<Rightarrow> [])"

definition add_to_group :: "string \<Rightarrow> nat \<Rightarrow> buckets \<Rightarrow> buckets" where
  "add_to_group g i b =
     (let (groups, group_order) = b;
          (groups1, order1) =
             (if groups g = None then (groups(g \<mapsto> []), group_order @ [g])
              else (groups, group_order))
      in (groups1(g \<mapsto> lookup_group groups1 g @ [i]), order1))"

definition bucket_step :: "bool \<Rightarrow> nat \<times> todo \<Rightarrow> buckets \<Rightarrow> buckets" where
  "bucket_step hide_completed it b =
     (let (i, t) = it
      in if hide_completed \<and> get_done t then b
         else (let clean = clean_task (task t)
               in if has_colon clean then add_to_group (strip (split_0 clean)) i b
                  else add_to_group ungrouped i b))"

definition bucket_todos :: "bool \<Rightarrow> todo list \<Rightarrow> buckets" where
  "bucket_todos hide_completed todos =
     fold (bucket_step hide_completed) (enumerate 0 todos) (Map.empty, [])"

definition emit_group :: "(string \<rightharpoonup> nat list) \<Rightarrow> string set \<Rightarrow> string \<Rightarrow> entry list" where
  "emit_group groups collapsed g =
     (if g \<noteq> ungrouped
      then (if g \<in> collapsed then [Group g] else map Todo (lookup_group groups g))
      else map Todo (lookup_group groups g))"

definition build_selectable_items :: "todo list \<Rightarrow> string set \<Rightarrow> bool \<Rightarrow> entry list" where
  "build_selectable_items todos collapsed hide_completed =
     (let (groups, group_order) = bucket_todos hide_completed todos
      in fold (\<lambda>g items. items @ emit_group groups collapsed g) group_order [])"

text \<open>
  The same list, stated from the description of the Group Model: drop the items whose
  done flag is true when completed items are hidden, take the group names in the order of
  their first occurrence, and emit a header for a collapsed named group, its members
  otherwise.
\<close>

definition visible_items :: "bool \<Rightarrow> todo list \<Rightarrow> (nat \<times> todo) list" where
  "visible_items hide_completed todos =
     filter (\<lambda>(i, t). \<not> (hide_completed \<and> tdone t = Some True)) (enumerate 0 todos)"

definition first_occurrences :: "'a list \<Rightarrow> 'a list" where
  "first_occurrences xs = rev (remdups (rev xs))"

definition members_of :: "string \<Rightarrow> (nat \<times> todo) list \<Rightarrow> nat list" where
  "members_of g vis = map fst (filter (\<lambda>(i, t). get_todo_group t = g) vis)"

definition spec_selectable :: "todo list \<Rightarrow> string set \<Rightarrow> bool \<Rightarrow> entry list" where
  "spec_selectable todos collapsed hide_completed =
     (let vis = visible_items hide_completed todos
      in concat (map (\<lambda>g. if g \<noteq> ungrouped \<and> g \<in> collapsed then [Group g]
                           else map Todo (members_of g vis))
                     (first_occurrences (map (\<lambda>(i, t). get_todo_group t) vis))))"

section \<open>Session state and key handlers\<close>

datatype sel_type = SelTodo | SelGroup

record session =
  todos :: "todo list"
  last_mtime :: nat
  just_saved :: bool
  selected :: nat
  selected_id :: "string option"
  selected_type :: sel_type
  selected_group :: "string option"
  input_text :: string
  cursor_pos :: nat
  input_mode :: bool
  editing_id :: "string option"
  collapsed_groups :: "string set"
  show_help :: bool
  hide_completed :: bool

text \<open>\<^verbatim>\<open>todos[i]['id']\<close>, with both ways it can raise.\<close>

definition get_id :: "todo list \<Rightarrow> nat \<Rightarrow> error + string" where
  "get_id ts i =
     (if i < length ts
      then (case tid (ts ! i) of None \<Rightarrow> Inl KeyError | Some x \<Rightarrow> Inr x)
      else Inl IndexError)"

text \<open>
  The first position of a record with the given id:
  \<^verbatim>\<open>for i, todo in enumerate(todos): if todo.get('id') == x: ...; break\<close>.
\<close>

fun find_by_id :: "string option \<Rightarrow> todo list \<Rightarrow> nat option" where
  "find_by_id x [] = None"
| "find_by_id x (t # ts) = (if tid t = x then Some 0 else map_option Suc (find_by_id x ts))"

text \<open>
  Moving the selection to an entry of the selectable list, the block that follows
  \<^verbatim>\<open>new_type, new_value = selectable[...]\<close> in the handlers.
\<close>

definition select_entry :: "entry \<Rightarrow> session \<Rightarrow> error + session" where
  "select_entry e s =
     (case e of
        Todo v \<Rightarrow>
          (case get_id (todos s) v of
             Inl er \<Rightarrow> Inl er
           | Inr i \<Rightarrow> Inr (s\<lparr>selected_type := SelTodo, selected := v,
                              selected_id := Some i, selected_group := None\<rparr>))
      | Group g \<Rightarrow> Inr (s\<lparr>selected_type := SelGroup, selected_group := Some g,
                          selected_id := None\<rparr>))"

text \<open>
  The search for the current position in \<^verbatim>\<open>KEY_UP\<close> and \<^verbatim>\<open>KEY_DOWN\<close>;
  \<open>- 1\<close> when no entry matches, as in the source.
\<close>

fun find_pos :: "session \<Rightarrow> entry list \<Rightarrow> int \<Rightarrow> error + int" where
  "find_pos s [] i = Inr (- 1)"
| "find_pos s (Todo v # es) i =
     (if selected_type s = SelTodo
      then (if v < length (todos s)
            then (if selected_id s = tid (todos s ! v) then Inr i else find_pos s es (i + 1))
            else Inl IndexError)
      else find_pos s es (i + 1))"
| "find_pos s (Group g # es) i =
     (if selected_type s = SelGroup \<and> Some g = selected_group s then Inr i
      else find_pos s es (i + 1))"

text \<open>
  \<^verbatim>\<open>selectable[k]\<close> followed by the selection block. The handlers only reach it with
  \<open>0 \<le> k\<close>, so Python's negative indexing plays no part.
\<close>

definition move_to :: "int \<Rightarrow> entry list \<Rightarrow> session \<Rightarrow> error + session" where
  "move_to k selectable s =
     (if 0 \<le> k \<and> k < int (length selectable) then select_entry (selectable ! nat k) s
      else Inl IndexError)"

definition leave_input :: "error + session \<Rightarrow> error + session" where
  "leave_input r =
     (case r of Inl e \<Rightarrow> Inl e | Inr s \<Rightarrow> Inr (s\<lparr>input_mode := False, editing_id := None\<rparr>))"

definition key_up :: "session \<Rightarrow> error + session" where
  "key_up s =
     leave_input
       (if todos s \<noteq> [] then
          (let selectable =
                 build_selectable_items (todos s) (collapsed_groups s) (hide_completed s)
           in if selectable \<noteq> [] then
                (case find_pos s selectable 0 of
                   Inl e \<Rightarrow> Inl e
                 | Inr current_pos \<Rightarrow>
                     if current_pos > 0 then move_to (current_pos - 1) selectable s
                     else Inr s)
              else Inr s)
        else Inr s)"

definition key_down :: "session \<Rightarrow> error + session" where
  "key_down s =
     leave_input
       (if todos s \<noteq> [] then
          (let selectable =
                 build_selectable_items (todos s) (collapsed_groups s) (hide_completed s)
           in if selectable \<noteq> [] then
                (case find_pos s selectable 0 of
                   Inl e \<Rightarrow> Inl e
                 | Inr current_pos \<Rightarrow>
                     if current_pos < int (length selectable) - 1
                     then move_to (current_pos + 1) selectable s
                     else Inr s)
              else Inr s)
        else Inr s)"

text \<open>
  The handlers below read and write the file. They return the world they leave behind
  together with the session, or with the exception that ends the program: a write that
  happened before the exception stays written.
\<close>

text \<open>
  The head of the main loop. \<open>current_mtime\<close> is what \<^verbatim>\<open>get_file_mtime()\<close>
  returned, a time stamp that is only ever compared.
\<close>

definition reload_check :: "nat \<Rightarrow> world \<Rightarrow> session \<Rightarrow> world \<times> (error + session)" where
  "reload_check current_mtime w s =
     (if just_saved s then (w, Inr (s\<lparr>last_mtime := current_mtime, just_saved := False\<rparr>))
      else if current_mtime > last_mtime s then
        (let (ts, w1) = load_todos w;
             s1 = s\<lparr>todos := ts, last_mtime := current_mtime\<rparr>
         in if truthy (selected_id s1) then
              (case find_by_id (selected_id s1) ts of
                 Some i \<Rightarrow> (w1, Inr (s1\<lparr>selected := i\<rparr>))
               | None \<Rightarrow>
                   if selected s1 \<ge> length ts \<and> length ts > 0
                   then (w1, Inr (s1\<lparr>selected := length ts - 1\<rparr>))
                   else if length ts = 0
                   then (w1, Inr (s1\<lparr>selected := 0, selected_id := None\<rparr>))
                   else (w1, Inr s1))
            else if length ts > 0 then
              (case get_id ts 0 of
                 Inl e \<Rightarrow> (w1, Inl e)
               | Inr i \<Rightarrow> (w1, Inr (s1\<lparr>selected := 0, selected_id := Some i\<rparr>)))
            else (w1, Inr s1))
      else (w, Inr s))"

subsection \<open>Enter\<close>

text \<open>The task text written by the save-edit branch.\<close>

definition edited_task :: "string \<Rightarrow> string \<Rightarrow> string" where
  "edited_task original_task txt =
     (let priority_prefix =
            (if startswith original_task ''!! '' then ''!! ''
             else if startswith original_task ''! '' then ''! '' else []);
          clean_original =
            (if priority_prefix \<noteq> [] then drop (length priority_prefix) original_task
             else original_task);
          group_prefix =
            (if has_colon clean_original then split_0 clean_original @ '': '' else [])
      in priority_prefix @ group_prefix @ txt)"

fun edit_todo :: "string option \<Rightarrow> string \<Rightarrow> todo list \<Rightarrow> todo list" where
  "edit_todo x txt [] = []"
| "edit_todo x txt (t # ts) =
     (if tid t = x then t\<lparr>task := edited_task (task t) txt\<rparr> # ts
      else t # edit_todo x txt ts)"

text \<open>
  The loop of the toggle branch; the boolean is \<open>toggled_to_complete\<close>.
  \<^verbatim>\<open>todo['done']\<close> raises on a record without the key.
\<close>

fun toggle_todo :: "string option \<Rightarrow> todo list \<Rightarrow> error + (todo list \<times> bool)" where
  "toggle_todo x [] = Inr ([], False)"
| "toggle_todo x (t # ts) =
     (if tid t = x
      then (case tdone t of
              None \<Rightarrow> Inl KeyError
            | Some b \<Rightarrow> Inr (t\<lparr>tdone := Some (\<not> b)\<rparr> # ts, \<not> b))
      else (case toggle_todo x ts of
              Inl e \<Rightarrow> Inl e
            | Inr (r, c) \<Rightarrow> Inr (t # r, c)))"

definition save_edit :: "world \<Rightarrow> session \<Rightarrow> world \<times> (error + session)" where
  "save_edit w s =
     (let (ts, w1) = load_todos w;
          ts1 = edit_todo (editing_id s) (strip (input_text s)) ts;
          w2 = save_todos ts1 w1;
          (ts2, w3) = load_todos w2;
          s1 = s\<lparr>todos := ts2, just_saved := True\<rparr>;
          s2 = (case find_by_id (editing_id s) ts2 of
                  Some i \<Rightarrow> s1\<lparr>selected := i, selected_id := editing_id s\<rparr>
                | None \<Rightarrow> s1)
      in (w3, Inr (s2\<lparr>input_text := [], cursor_pos := 0, input_mode := False,
                      editing_id := None\<rparr>)))"

definition add_new :: "world \<Rightarrow> session \<Rightarrow> world \<times> (error + session)" where
  "add_new w s =
     (let new_id = uuid_src w (uuid_ctr w);
          w0 = w\<lparr>uuid_ctr := Suc (uuid_ctr w)\<rparr>;
          ts = todos s @ [\<lparr>tid = Some new_id, task = strip (input_text s),
                           tdone = Some False, extra = []\<rparr>];
          w1 = save_todos ts w0;
          (ts2, w2) = load_todos w1;
          s1 = s\<lparr>todos := ts2, just_saved := True\<rparr>;
          s2 = (case find_by_id (Some new_id) ts2 of
                  Some i \<Rightarrow> s1\<lparr>selected := i, selected_id := Some new_id\<rparr>
                | None \<Rightarrow> s1)
      in (w2, Inr (s2\<lparr>input_text := [], cursor_pos := 0, input_mode := False\<rparr>)))"

definition toggle_selected :: "world \<Rightarrow> session \<Rightarrow> world \<times> (error + session)" where
  "toggle_selected w s =
     (let (ts, w1) = load_todos w
      in case toggle_todo (selected_id s) ts of
           Inl e \<Rightarrow> (w1, Inl e)
         | Inr (ts1, toggled_to_complete) \<Rightarrow>
             (let w2 = save_todos ts1 w1;
                  (ts2, w3) = load_todos w2;
                  s1 = s\<lparr>todos := ts2, just_saved := True\<rparr>;
                  s2 = (case find_by_id (selected_id s) ts2 of
                          Some i \<Rightarrow> s1\<lparr>selected := i, selected_type := SelTodo\<rparr>
                        | None \<Rightarrow> s1)
              in if toggled_to_complete \<and> hide_completed s2 then
                   (let selectable =
                          build_selectable_items ts2 (collapsed_groups s2) (hide_completed s2)
                    in if selectable \<noteq> [] then (w3, move_to 0 selectable s2)
                       else (w3, Inr s2))
                 else (w3, Inr s2)))"

definition key_enter :: "world \<Rightarrow> session \<Rightarrow> world \<times> (error + session)" where
  "key_enter w s =
     (if strip (input_text s) \<noteq> [] \<and> truthy (editing_id s) then save_edit w s
      else if strip (input_text s) \<noteq> [] then add_new w s
      else if todos s \<noteq> [] \<and> \<not> input_mode s \<and> selected_type s = SelTodo
              \<and> truthy (selected_id s)
      then toggle_selected w s
      else (w, Inr s))"

subsection \<open>Delete\<close>

definition key_dc :: "world \<Rightarrow> session \<Rightarrow> world \<times> (error + session)" where
  "key_dc w s =
     (if input_text s \<noteq> [] then
        (if cursor_pos s < length (input_text s)
         then (w, Inr (s\<lparr>input_text := take (cursor_pos s) (input_text s)
                                         @ drop (cursor_pos s + 1) (input_text s)\<rparr>))
         else (w, Inr s))
      else if \<not> input_mode s \<and> selected_type s = SelTodo \<and> truthy (selected_id s) then
        (if todos s \<noteq> [] then
           (let (ts0, w1) = load_todos w;
                ts = filter (\<lambda>t. tid t \<noteq> selected_id s) ts0;
                w2 = w1\<lparr>todo_file := Some ts\<rparr>;
                s1 = s\<lparr>todos := ts, just_saved := True\<rparr>;
                s2 = (if selected s1 \<ge> length ts \<and> selected s1 > 0
                      then s1\<lparr>selected := selected s1 - 1\<rparr> else s1)
            in if length ts > 0 then
                 (case get_id ts (selected s2) of
                    Inl e \<Rightarrow> (w2, Inl e)
                  | Inr i \<Rightarrow> (w2, Inr (s2\<lparr>selected_id := Some i\<rparr>)))
               else (w2, Inr (s2\<lparr>selected_id := None\<rparr>)))
         else (w, Inr s))
      else (w, Inr s))"

section \<open>Notions used to state the properties\<close>

text \<open>What the file holds; a missing file counts as the empty collection.\<close>

definition on_disk :: "world \<Rightarrow> todo list" where
  "on_disk w = (case todo_file w of None \<Rightarrow> [] | Some ts \<Rightarrow> ts)"

text \<open>
  The focus of a session as a tagged value, the item id or the group name the selection
  variables stand for, and the focus an entry of the selectable list would give.
\<close>

datatype focus = FTodo "string option" | FGroup "string option"

definition focus_of :: "session \<Rightarrow> focus" where
  "focus_of s =
     (case selected_type s of
        SelTodo \<Rightarrow> FTodo (selected_id s)
      | SelGroup \<Rightarrow> FGroup (selected_group s))"

definition entry_focus :: "todo list \<Rightarrow> entry \<Rightarrow> focus" where
  "entry_focus ts e = (case e of Todo v \<Rightarrow> FTodo (tid (ts ! v)) | Group g \<Rightarrow> FGroup (Some g))"

text \<open>What the first loop has built after a list of visible items.\<close>

definition buckets_of :: "(nat \<times> todo) list \<Rightarrow> buckets" where
  "buckets_of v =
     ((\<lambda>g. if g \<in> (\<lambda>(i, t). get_todo_group t) ` set v then Some (members_of g v) else None),
      first_occurrences (map (\<lambda>(i, t). get_todo_group t) v))"

text \<open>
  Two characters are the same letter when they are equal or one is an ASCII capital
  (codes 65 to 90) and the other the small letter 32 above it. Strings that are the same
  letter by letter differ only in case.
\<close>

definition same_letter :: "char \<Rightarrow> char \<Rightarrow> bool" where
  "same_letter c d \<longleftrightarrow>
     c = d
     \<or> (65 \<le> (of_char c :: nat) \<and> (of_char c :: nat) \<le> 90 \<and> (of_char d :: nat) = of_char c + 32)
     \<or> (65 \<le> (of_char d :: nat) \<and> (of_char d :: nat) \<le> 90 \<and> (of_char c :: nat) = of_char d + 32)"

section \<open>Strings and the codec\<close>

lemma startswith_iff: "startswith s p \<longleftrightarrow> (\<exists>r. s = p @ r)"
proof
  assume "startswith s p"
  then have "s = p @ drop (length p) s"
    unfolding startswith_def by (metis append_take_drop_id)
  then show "\<exists>r. s = p @ r" ..
next
  assume "\<exists>r. s = p @ r"
  then show "startswith s p" by (auto simp: startswith_def)
qed

lemma not_both_markers: "\<not> (startswith s ''!! '' \<and> startswith s ''! '')"
  by (auto simp: startswith_iff)

lemma split_at_first_colon:
  assumes "c = g @ CHR '':'' # r" and "CHR '':'' \<notin> set g"
  shows "has_colon c" and "split_0 c = g" and "split_1 c = r"
proof -
  show hc: "has_colon c" using assms by (simp add: has_colon_def)
  have ng: "\<And>x. x \<in> set g \<Longrightarrow> x \<noteq> CHR '':''" using assms(2) by auto
  have tw: "takeWhile (\<lambda>x. x \<noteq> CHR '':'') c = g"
    unfolding assms(1) using takeWhile_append2[of g "\<lambda>x. x \<noteq> CHR '':''", OF ng] by simp
  have dw: "dropWhile (\<lambda>x. x \<noteq> CHR '':'') c = CHR '':'' # r"
    unfolding assms(1) using dropWhile_append2[of g "\<lambda>x. x \<noteq> CHR '':''", OF ng] by simp
  show "split_0 c = g" using hc tw by (simp add: split_0_def split_colon_def)
  show "split_1 c = r" using hc dw by (simp add: split_1_def split_colon_def)
qed

lemma has_colon_decompose:
  "has_colon c \<Longrightarrow> c = split_0 c @ CHR '':'' # split_1 c \<and> CHR '':'' \<notin> set (split_0 c)"
proof -
  assume hc: "has_colon c"
  let ?P = "\<lambda>x. x \<noteq> CHR '':''"
  have "dropWhile ?P c \<noteq> []" using hc by (auto simp: has_colon_def dropWhile_eq_Nil_conv)
  moreover have "dropWhile ?P c \<noteq> [] \<Longrightarrow> hd (dropWhile ?P c) = CHR '':''"
    using hd_dropWhile[of ?P c] by auto
  ultimately have dw: "dropWhile ?P c = CHR '':'' # drop 1 (dropWhile ?P c)"
    by (cases "dropWhile ?P c") auto
  have "c = takeWhile ?P c @ dropWhile ?P c" by simp
  with dw have "c = takeWhile ?P c @ CHR '':'' # drop 1 (dropWhile ?P c)" by simp
  moreover have "CHR '':'' \<notin> set (takeWhile ?P c)" by (auto dest: set_takeWhileD)
  ultimately show ?thesis using hc by (simp add: split_0_def split_1_def split_colon_def)
qed

text \<open>
  C6, as the code has it. The priority is 2 (high) exactly for a task that starts with
  \<^verbatim>\<open>"!! "\<close>, 1 (low) exactly for one that starts with \<^verbatim>\<open>"! "\<close>, 0 otherwise, and
  the marker is cut off. When the rest contains a colon, the group is the text before the
  first colon and the display text the text after it, each with the surrounding white space
  trimmed; without a colon the group is the sentinel and the display text is the whole rest.
\<close>

theorem decode_task:
  "(get_priority (task t) = 2 \<longleftrightarrow> (\<exists>r. task t = ''!! '' @ r))
   \<and> (get_priority (task t) = 1 \<longleftrightarrow> (\<exists>r. task t = ''! '' @ r))
   \<and> (get_priority (task t) = 0 \<longleftrightarrow> \<not> (\<exists>r. task t = ''!! '' @ r) \<and> \<not> (\<exists>r. task t = ''! '' @ r))
   \<and> (clean_task (task t) =
         (if get_priority (task t) = 2 then drop 3 (task t)
          else if get_priority (task t) = 1 then drop 2 (task t) else task t))
   \<and> (\<forall>g r. clean_task (task t) = g @ CHR '':'' # r \<and> CHR '':'' \<notin> set g
          \<longrightarrow> get_todo_group t = strip g \<and> display_text t = strip r)
   \<and> (CHR '':'' \<notin> set (clean_task (task t))
          \<longrightarrow> get_todo_group t = ungrouped \<and> display_text t = clean_task (task t))"
proof -
  have p: "get_priority (task t) = 2 \<longleftrightarrow> (\<exists>r. task t = ''!! '' @ r)"
    "get_priority (task t) = 1 \<longleftrightarrow> (\<exists>r. task t = ''! '' @ r)"
    "get_priority (task t) = 0 \<longleftrightarrow> \<not> (\<exists>r. task t = ''!! '' @ r) \<and> \<not> (\<exists>r. task t = ''! '' @ r)"
    using not_both_markers[of "task t"]
    unfolding get_priority_def startswith_iff[symmetric] by auto
  have c: "clean_task (task t) =
         (if get_priority (task t) = 2 then drop 3 (task t)
          else if get_priority (task t) = 1 then drop 2 (task t) else task t)"
    by (simp add: clean_task_def get_priority_def)
  have g: "get_todo_group t = strip g \<and> display_text t = strip r"
    if "clean_task (task t) = g @ CHR '':'' # r" "CHR '':'' \<notin> set g" for g r
    using split_at_first_colon[OF that] by (simp add: get_todo_group_def display_text_def)
  have u: "get_todo_group t = ungrouped \<and> display_text t = clean_task (task t)"
    if "CHR '':'' \<notin> set (clean_task (task t))"
    using that by (simp add: get_todo_group_def display_text_def has_colon_def)
  from p c g u show ?thesis by blast
qed

theorem decode_task_witness:
  "get_priority ''!! Work : Apple '' = 2
   \<and> get_todo_group \<lparr>tid = Some ''a'', task = ''!! Work : Apple '', tdone = Some False, extra = []\<rparr> = ''Work''
   \<and> display_text \<lparr>tid = Some ''a'', task = ''!! Work : Apple '', tdone = Some False, extra = []\<rparr> = ''Apple''
   \<and> get_todo_group \<lparr>tid = Some ''b'', task = ''! Solo'', tdone = Some False, extra = []\<rparr> = ungrouped
   \<and> display_text \<lparr>tid = Some ''b'', task = ''! Solo'', tdone = Some False, extra = []\<rparr> = ''Solo''"
proof -
  let ?a = "\<lparr>tid = Some ''a'', task = ''!! Work : Apple '', tdone = Some False, extra = []\<rparr>"
  let ?b = "\<lparr>tid = Some ''b'', task = ''! Solo'', tdone = Some False, extra = []\<rparr>"
  have ca: "clean_task (task ?a) = ''Work '' @ CHR '':'' # '' Apple ''" by code_simp
  have na: "CHR '':'' \<notin> set ''Work ''" by simp
  have cb: "CHR '':'' \<notin> set (clean_task (task ?b))" by code_simp
  have sa: "strip ''Work '' = ''Work''" "strip '' Apple '' = ''Apple''" by code_simp+
  have sb: "clean_task (task ?b) = ''Solo''" by code_simp
  have pa: "task ?a = ''!! '' @ ''Work : Apple ''" by simp
  from decode_task[of ?a] ca na pa sa have
    "get_priority (task ?a) = 2 \<and> get_todo_group ?a = ''Work'' \<and> display_text ?a = ''Apple''"
    by metis
  moreover from decode_task[of ?b] cb sb have
    "get_todo_group ?b = ungrouped \<and> display_text ?b = ''Solo''" by metis
  ultimately show ?thesis by simp
qed

text \<open>
  C6 as written takes the group to be the text before the first colon and the display
  text to be the text after it. For the task \<^verbatim>\<open>"Work : Apple"\<close> these are
  \<^verbatim>\<open>"Work "\<close> and \<^verbatim>\<open>" Apple"\<close>; the code trims both.
\<close>

theorem decode_task_counterexample:
  "clean_task (task \<lparr>tid = Some ''a'', task = ''Work : Apple'', tdone = Some False, extra = []\<rparr>)
     = ''Work '' @ CHR '':'' # '' Apple''
   \<and> CHR '':'' \<notin> set ''Work ''
   \<and> get_todo_group \<lparr>tid = Some ''a'', task = ''Work : Apple'', tdone = Some False, extra = []\<rparr> \<noteq> ''Work ''
   \<and> display_text \<lparr>tid = Some ''a'', task = ''Work : Apple'', tdone = Some False, extra = []\<rparr> \<noteq> '' Apple''"
  by code_simp

section \<open>Store: sorting and merging\<close>

lemma sort_key_position:
  fixes f :: "'a \<Rightarrow> 'k::linorder"
  assumes "i < length (sort_key f xs)" "j < length (sort_key f xs)"
    and "f (sort_key f xs ! i) < f (sort_key f xs ! j)"
  shows "i < j"
proof (rule ccontr)
  assume "\<not> i < j"
  then have ji: "j \<le> i" by simp
  have "sorted (map f (sort_key f xs))" by simp
  then have "map f (sort_key f xs) ! j \<le> map f (sort_key f xs) ! i"
    using ji assms(1) by (simp add: sorted_iff_nth_mono del: sorted_sort_key)
  then show False using assms by simp
qed

lemma save_todos_file:
  "todo_file (save_todos cand w) =
     Some (sort_key get_sort_key
       (cand @ filter (\<lambda>t. tid t \<notin> tid ` {x \<in> set cand. tid x \<noteq> None}) (fst (load_todos w))))"
  by (simp add: save_todos_def Let_def split: prod.splits)

lemma get_sort_key_decoded:
  "get_sort_key t =
     (if has_colon (clean_task (task t))
      then (0, lower (get_todo_group t), lower (display_text t))
      else (1, [], lower (clean_task (task t))))"
  by (simp add: get_sort_key_def get_todo_group_def display_text_def Let_def)

lemma grouped_before_ungrouped:
  "has_colon (clean_task (task a)) \<and> \<not> has_colon (clean_task (task b))
     \<longrightarrow> get_sort_key a < get_sort_key b"
  by (simp add: get_sort_key_decoded less_prod_def)

lemma grouped_tier_order:
  "has_colon (clean_task (task a)) \<and> has_colon (clean_task (task b)) \<longrightarrow>
     (get_sort_key a < get_sort_key b \<longleftrightarrow>
        lower (get_todo_group a) < lower (get_todo_group b)
        \<or> lower (get_todo_group a) = lower (get_todo_group b)
          \<and> lower (display_text a) < lower (display_text b))"
  by (auto simp: get_sort_key_decoded less_prod_def)

lemma ungrouped_tier_order:
  "\<not> has_colon (clean_task (task a)) \<and> \<not> has_colon (clean_task (task b)) \<longrightarrow>
     (get_sort_key a < get_sort_key b \<longleftrightarrow>
        lower (clean_task (task a)) < lower (clean_task (task b)))"
  by (auto simp: get_sort_key_decoded less_prod_def)

lemma saved_file_sorted:
  "\<exists>fs. todo_file (save_todos cand w) = Some fs
     \<and> sorted (map get_sort_key fs)
     \<and> (\<forall>i j. i < length fs \<and> j < length fs
            \<and> get_sort_key (fs ! i) < get_sort_key (fs ! j) \<longrightarrow> i < j)"
proof -
  obtain fs where fs: "todo_file (save_todos cand w) = Some fs"
    and srt: "fs = sort_key get_sort_key
       (cand @ filter (\<lambda>t. tid t \<notin> tid ` {x \<in> set cand. tid x \<noteq> None}) (fst (load_todos w)))"
    using save_todos_file by blast
  have "sorted (map get_sort_key fs)" unfolding srt by (rule sorted_sort_key)
  moreover have "\<forall>i j. i < length fs \<and> j < length fs
                \<and> get_sort_key (fs ! i) < get_sort_key (fs ! j) \<longrightarrow> i < j"
    unfolding srt using sort_key_position[of _ get_sort_key] by blast
  ultimately show ?thesis using fs by blast
qed

lemma apple_before_zebra:
  assumes "task p = ''Work: Apple''" and "task q = ''Work: Zebra''"
  shows "get_sort_key p < get_sort_key q"
proof -
  have a: "(let c = clean_task ''Work: Apple''
      in if has_colon c
         then (0::nat, lower (strip (split_0 c)), lower (strip (split_1 c)))
         else (1, [], lower c)) = (0, ''work'', ''apple'')" by code_simp
  have z: "(let c = clean_task ''Work: Zebra''
      in if has_colon c
         then (0::nat, lower (strip (split_0 c)), lower (strip (split_1 c)))
         else (1, [], lower c)) = (0, ''work'', ''zebra'')" by code_simp
  have lt: "((0::nat, ''work'', ''apple'') < (0, ''work'', ''zebra''))" by code_simp
  show ?thesis unfolding get_sort_key_def assms a z by (rule lt)
qed

lemma solo_after_grouped:
  "task u = ''Solo'' \<and> has_colon (clean_task (task a))
     \<longrightarrow> get_sort_key a < get_sort_key u"
proof
  assume h: "task u = ''Solo'' \<and> has_colon (clean_task (task a))"
  have "\<not> has_colon (clean_task ''Solo'')" by code_simp
  then show "get_sort_key a < get_sort_key u"
    using h by (simp add: get_sort_key_decoded less_prod_def)
qed

lemma lower_char_same_letter: "same_letter c d \<Longrightarrow> lower_char c = lower_char d"
proof -
  have up: "lower_char x = y" if "65 \<le> (of_char x :: nat)" "(of_char x :: nat) \<le> 90"
    "(of_char y :: nat) = of_char x + 32" for x y
  proof -
    have "char_of (of_char x + (32::nat)) = char_of (of_char y :: nat)" using that(3) by simp
    then show ?thesis using that(1,2) by (simp add: lower_char_def less_eq_char_def)
  qed
  have lo: "lower_char y = y" if "97 \<le> (of_char y :: nat)" for y
    using that by (simp add: lower_char_def less_eq_char_def)
  assume "same_letter c d"
  then consider "c = d"
    | "65 \<le> (of_char c :: nat)" "(of_char c :: nat) \<le> 90" "(of_char d :: nat) = of_char c + 32"
    | "65 \<le> (of_char d :: nat)" "(of_char d :: nat) \<le> 90" "(of_char c :: nat) = of_char d + 32"
    by (auto simp: same_letter_def)
  then show ?thesis
  proof cases
    case 1 then show ?thesis by simp
  next
    case 2
    then show ?thesis using up[of c d] lo[of d] by simp
  next
    case 3
    then show ?thesis using up[of d c] lo[of c] by simp
  qed
qed

lemma same_letter_plain:
  "same_letter c d \<Longrightarrow> (of_char c :: nat) < 65 \<or> (of_char d :: nat) < 65 \<Longrightarrow> c = d"
  by (auto simp: same_letter_def)

lemma plain_chars:
  "(of_char (CHR '':'') :: nat) < 65" "(of_char (CHR ''!'') :: nat) < 65"
  "(of_char (CHR '' '') :: nat) < 65"
  by simp_all

lemma is_space_plain: "is_space c \<Longrightarrow> (of_char c :: nat) < 65"
  by (auto simp: is_space_def)

lemma same_letter_pred:
  assumes "same_letter c d" and "\<And>x. P x \<Longrightarrow> (of_char x :: nat) < 65"
  shows "P c \<longleftrightarrow> P d"
  using assms same_letter_plain by blast

lemma list_all2_takeWhile_dropWhile:
  assumes "list_all2 R xs ys" and "\<And>c d. R c d \<Longrightarrow> Q c \<longleftrightarrow> Q d"
  shows "list_all2 R (takeWhile Q xs) (takeWhile Q ys)"
    and "list_all2 R (dropWhile Q xs) (dropWhile Q ys)"
  using assms(1)
proof (induction rule: list_all2_induct)
  case Nil
  { case 1 show ?case by simp }
  { case 2 show ?case by simp }
next
  case (Cons x xs y ys)
  { case 1 show ?case using Cons assms(2)[of x y] by auto }
  { case 2 show ?case using Cons assms(2)[of x y] by auto }
qed


lemma same_letter_lists_plain:
  "list_all2 same_letter us vs \<Longrightarrow> \<forall>c\<in>set vs. (of_char c :: nat) < 65 \<Longrightarrow> us = vs"
  by (induction rule: list_all2_induct) (auto dest: same_letter_plain)

lemma same_letter_lists_plain_left:
  "list_all2 same_letter us vs \<Longrightarrow> \<forall>c\<in>set us. (of_char c :: nat) < 65 \<Longrightarrow> us = vs"
  by (induction rule: list_all2_induct) (auto dest: same_letter_plain)

lemma same_letter_lower:
  "list_all2 same_letter xs ys \<Longrightarrow> lower xs = lower ys"
  by (induction rule: list_all2_induct) (auto simp: lower_def dest: lower_char_same_letter)

lemma same_letter_has_colon:
  "list_all2 same_letter xs ys \<Longrightarrow> has_colon xs \<longleftrightarrow> has_colon ys"
  by (induction rule: list_all2_induct)
     (auto simp: has_colon_def dest: same_letter_plain[where c = "CHR '':''"]
        same_letter_plain[where d = "CHR '':''"])

lemma same_letter_strip:
  assumes "list_all2 same_letter xs ys"
  shows "list_all2 same_letter (strip xs) (strip ys)"
proof -
  have q: "is_space c \<longleftrightarrow> is_space d" if "same_letter c d" for c d
    using same_letter_pred[OF that, of is_space] is_space_plain by blast
  have "list_all2 same_letter (dropWhile is_space xs) (dropWhile is_space ys)"
    using list_all2_takeWhile_dropWhile(2)[OF assms q] .
  then have r: "list_all2 same_letter (rev (dropWhile is_space xs)) (rev (dropWhile is_space ys))"
    by (simp add: list_all2_rev)
  have "list_all2 same_letter (dropWhile is_space (rev (dropWhile is_space xs)))
      (dropWhile is_space (rev (dropWhile is_space ys)))"
    by (rule list_all2_takeWhile_dropWhile(2)[OF r q])
  then show ?thesis by (simp add: strip_def list_all2_rev)
qed

lemma same_letter_split:
  assumes "list_all2 same_letter xs ys"
  shows "list_all2 same_letter (split_0 xs) (split_0 ys)"
    and "list_all2 same_letter (split_1 xs) (split_1 ys)"
proof -
  have q: "c \<noteq> CHR '':'' \<longleftrightarrow> d \<noteq> CHR '':''" if "same_letter c d" for c d
    using same_letter_plain[OF that] by auto
  note td = list_all2_takeWhile_dropWhile[OF assms q]
  have h: "has_colon xs \<longleftrightarrow> has_colon ys" using assms by (rule same_letter_has_colon)
  show "list_all2 same_letter (split_0 xs) (split_0 ys)"
    using td(1) h assms by (simp add: split_0_def split_colon_def)
  show "list_all2 same_letter (split_1 xs) (split_1 ys)"
    using list_all2_dropI[OF td(2), where n = 1] h by (simp add: split_1_def split_colon_def)
qed

lemma same_letter_startswith:
  assumes "list_all2 same_letter xs ys" and "\<forall>c\<in>set p. (of_char c :: nat) < 65"
  shows "startswith xs p \<longleftrightarrow> startswith ys p"
proof -
  have t: "list_all2 same_letter (take (length p) xs) (take (length p) ys)"
    using assms(1) by (rule list_all2_takeI)
  show ?thesis
  proof
    assume "startswith xs p"
    then have "take (length p) xs = p" by (simp add: startswith_def)
    then show "startswith ys p"
      using same_letter_lists_plain_left[OF t] assms(2) by (simp add: startswith_def)
  next
    assume "startswith ys p"
    then have "take (length p) ys = p" by (simp add: startswith_def)
    then show "startswith xs p"
      using same_letter_lists_plain[OF t] assms(2) by (simp add: startswith_def)
  qed
qed

lemma same_letter_clean_task:
  assumes "list_all2 same_letter xs ys"
  shows "list_all2 same_letter (clean_task xs) (clean_task ys)"
proof -
  have "startswith xs ''!! '' \<longleftrightarrow> startswith ys ''!! ''"
    "startswith xs ''! '' \<longleftrightarrow> startswith ys ''! ''"
    using same_letter_startswith[OF assms] by simp_all
  then show ?thesis using assms by (simp add: clean_task_def list_all2_dropI)
qed

lemma sort_key_ignores_case:
  assumes "list_all2 same_letter (task a) (task b)"
  shows "get_sort_key a = get_sort_key b"
proof -
  let ?ca = "clean_task (task a)" and ?cb = "clean_task (task b)"
  have c: "list_all2 same_letter ?ca ?cb" using assms by (rule same_letter_clean_task)
  have h: "has_colon ?ca \<longleftrightarrow> has_colon ?cb" using c by (rule same_letter_has_colon)
  have "lower (strip (split_0 ?ca)) = lower (strip (split_0 ?cb))"
    "lower (strip (split_1 ?ca)) = lower (strip (split_1 ?cb))"
    "lower ?ca = lower ?cb"
    using same_letter_lower[OF same_letter_strip[OF same_letter_split(1)[OF c]]]
      same_letter_lower[OF same_letter_strip[OF same_letter_split(2)[OF c]]]
      same_letter_lower[OF c] by simp_all
  then show ?thesis using h by (simp add: get_sort_key_def Let_def)
qed

text \<open>
  C4, as the code has it. The key strips the priority marker and is
  \<open>(0, lower group, lower text)\<close> for a task with a colon, where group and text are the
  parts before and after the first colon with the surrounding white space trimmed (the
  decoded group and display text), and \<open>(1, empty, lower text)\<close> otherwise. Hence a
  grouped item's key is below every ungrouped item's key; within a tier keys compare
  lexicographically on the lower-case strings; the file written by a save is sorted by the
  key, so an item with a smaller key stands before one with a larger key whatever the order
  of insertion; \<^verbatim>\<open>"Work: Apple"\<close> comes before \<^verbatim>\<open>"Work: Zebra"\<close>, and \<^verbatim>\<open>"Solo"\<close>
  after any grouped item. The key ignores case: two tasks that are the same letter by
  letter have the same key.
\<close>

theorem canonical_sort_order:
  "get_sort_key t =
     (if has_colon (clean_task (task t))
      then (0, lower (get_todo_group t), lower (display_text t))
      else (1, [], lower (clean_task (task t))))
   \<and> (has_colon (clean_task (task a)) \<and> \<not> has_colon (clean_task (task b))
        \<longrightarrow> get_sort_key a < get_sort_key b)
   \<and> (has_colon (clean_task (task a)) \<and> has_colon (clean_task (task b)) \<longrightarrow>
        (get_sort_key a < get_sort_key b \<longleftrightarrow>
           lower (get_todo_group a) < lower (get_todo_group b)
           \<or> lower (get_todo_group a) = lower (get_todo_group b)
             \<and> lower (display_text a) < lower (display_text b)))
   \<and> (\<not> has_colon (clean_task (task a)) \<and> \<not> has_colon (clean_task (task b)) \<longrightarrow>
        (get_sort_key a < get_sort_key b \<longleftrightarrow>
           lower (clean_task (task a)) < lower (clean_task (task b))))
   \<and> (\<exists>fs. todo_file (save_todos cand w) = Some fs
         \<and> sorted (map get_sort_key fs)
         \<and> (\<forall>i j. i < length fs \<and> j < length fs
                \<and> get_sort_key (fs ! i) < get_sort_key (fs ! j) \<longrightarrow> i < j))
   \<and> (task p = ''Work: Apple'' \<and> task q = ''Work: Zebra''
        \<longrightarrow> get_sort_key p < get_sort_key q)
   \<and> (task u = ''Solo'' \<and> has_colon (clean_task (task a))
        \<longrightarrow> get_sort_key a < get_sort_key u)
   \<and> (list_all2 same_letter (task x) (task y) \<longrightarrow> get_sort_key x = get_sort_key y)"
  apply (intro conjI)
         apply (rule get_sort_key_decoded)
        apply (rule grouped_before_ungrouped)
       apply (rule grouped_tier_order)
      apply (rule ungrouped_tier_order)
     apply (rule saved_file_sorted)
    apply (simp add: apple_before_zebra)
   apply (rule solo_after_grouped)
  apply (simp add: sort_key_ignores_case)
  done

theorem canonical_sort_order_witness:
  "get_sort_key \<lparr>tid = Some ''a'', task = ''Work: Apple'', tdone = Some False, extra = []\<rparr>
     < get_sort_key \<lparr>tid = Some ''z'', task = ''Work: Zebra'', tdone = Some False, extra = []\<rparr>
   \<and> get_sort_key \<lparr>tid = Some ''z'', task = ''Work: Zebra'', tdone = Some False, extra = []\<rparr>
     < get_sort_key \<lparr>tid = Some ''s'', task = ''Solo'', tdone = Some False, extra = []\<rparr>
   \<and> get_sort_key \<lparr>tid = Some ''m'', task = ''! WORK : apple'', tdone = Some False, extra = []\<rparr>
     = get_sort_key \<lparr>tid = Some ''n'', task = ''! work : APPLE'', tdone = Some False, extra = []\<rparr>
   \<and> get_sort_key \<lparr>tid = Some ''m'', task = ''! WORK : apple'', tdone = Some False, extra = []\<rparr>
     = (0, ''work'', ''apple'')
   \<and> todo_file (save_todos
         [\<lparr>tid = Some ''s'', task = ''solo'', tdone = Some False, extra = []\<rparr>,
          \<lparr>tid = Some ''z'', task = ''Work: Zebra'', tdone = Some False, extra = []\<rparr>,
          \<lparr>tid = Some ''a'', task = ''work: apple'', tdone = Some False, extra = []\<rparr>]
         \<lparr>todo_file = None, uuid_src = (\<lambda>n. ''u''), uuid_ctr = 0\<rparr>)
     = Some [\<lparr>tid = Some ''a'', task = ''work: apple'', tdone = Some False, extra = []\<rparr>,
             \<lparr>tid = Some ''z'', task = ''Work: Zebra'', tdone = Some False, extra = []\<rparr>,
             \<lparr>tid = Some ''s'', task = ''solo'', tdone = Some False, extra = []\<rparr>]"
proof -
  let ?a = "\<lparr>tid = Some ''a'', task = ''Work: Apple'', tdone = Some False, extra = []\<rparr>"
  let ?z = "\<lparr>tid = Some ''z'', task = ''Work: Zebra'', tdone = Some False, extra = []\<rparr>"
  let ?s = "\<lparr>tid = Some ''s'', task = ''Solo'', tdone = Some False, extra = []\<rparr>"
  let ?m = "\<lparr>tid = Some ''m'', task = ''! WORK : apple'', tdone = Some False, extra = []\<rparr>"
  let ?n = "\<lparr>tid = Some ''n'', task = ''! work : APPLE'', tdone = Some False, extra = []\<rparr>"
  let ?la = "\<lparr>tid = Some ''a'', task = ''work: apple'', tdone = Some False, extra = []\<rparr>"
  let ?ls = "\<lparr>tid = Some ''s'', task = ''solo'', tdone = Some False, extra = []\<rparr>"
  let ?w = "\<lparr>todo_file = None, uuid_src = (\<lambda>n. ''u''), uuid_ctr = 0\<rparr>"
  have h1: "has_colon (clean_task (task ?z))" by code_simp
  have h2: "task ?a = ''Work: Apple'' \<and> task ?z = ''Work: Zebra''" by simp
  have h3: "task ?s = ''Solo''" by simp
  have h4: "list_all2 same_letter (task ?m) (task ?n)" by (simp add: same_letter_def)
  note T = canonical_sort_order[where a = ?z and p = ?a and q = ?z and u = ?s and t = ?z
      and b = ?s and cand = "[]" and w = ?w and x = ?m and y = ?n]
  note c6 = T[THEN conjunct2, THEN conjunct2, THEN conjunct2, THEN conjunct2, THEN conjunct2,
      THEN conjunct1]
  note c7 = T[THEN conjunct2, THEN conjunct2, THEN conjunct2, THEN conjunct2, THEN conjunct2,
      THEN conjunct2, THEN conjunct1]
  note c8 = T[THEN conjunct2, THEN conjunct2, THEN conjunct2, THEN conjunct2, THEN conjunct2,
      THEN conjunct2, THEN conjunct2]
  have "get_sort_key ?a < get_sort_key ?z" using c6 h2 by (rule mp)
  moreover have "get_sort_key ?z < get_sort_key ?s" using c7 conjI[OF h3 h1] by (rule mp)
  moreover have "get_sort_key ?m = get_sort_key ?n" using c8 h4 by (rule mp)
  moreover have "get_sort_key ?m = (0, ''work'', ''apple'')" by code_simp
  moreover have "todo_file (save_todos [?ls, ?z, ?la] ?w) = Some [?la, ?z, ?ls]"
    by code_simp
  ultimately show ?thesis by blast
qed

text \<open>
  C4 as written takes the group and the remainder of the key to be the text before and
  after the colon. For \<^verbatim>\<open>"Work: Apple"\<close> these are \<^verbatim>\<open>"Work"\<close> and \<^verbatim>\<open>" Apple"\<close>; the
  key holds the trimmed \<^verbatim>\<open>"apple"\<close>, not \<^verbatim>\<open>" apple"\<close>.
\<close>

theorem canonical_sort_order_counterexample:
  "clean_task (task \<lparr>tid = Some ''a'', task = ''Work: Apple'', tdone = Some False, extra = []\<rparr>)
     = ''Work'' @ CHR '':'' # '' Apple''
   \<and> CHR '':'' \<notin> set ''Work''
   \<and> get_sort_key \<lparr>tid = Some ''a'', task = ''Work: Apple'', tdone = Some False, extra = []\<rparr>
     \<noteq> (0, lower ''Work'', lower '' Apple'')"
  by code_simp

section \<open>Store: loading, merging and the round trip\<close>

lemma backfill_ids: "backfill U n ts = (r, m) \<Longrightarrow> t \<in> set r \<Longrightarrow> tid t \<noteq> None"
  by (induction ts arbitrary: n r m) (auto split: option.splits prod.splits)

lemma backfill_keeps:
  "backfill U n ts = (r, m) \<Longrightarrow> x \<in> set ts \<Longrightarrow> tid x \<noteq> None \<Longrightarrow> x \<in> set r"
  by (induction ts arbitrary: n r m) (auto split: option.splits prod.splits)

lemma backfill_all_ids: "\<forall>t\<in>set ts. tid t \<noteq> None \<Longrightarrow> backfill U n ts = (ts, n)"
  by (induction ts arbitrary: n) (auto split: option.splits prod.splits)

lemma load_todos_ids: "t \<in> set (fst (load_todos w)) \<Longrightarrow> tid t \<noteq> None"
  by (auto simp: load_todos_def split: option.splits prod.splits dest: backfill_ids)

lemma load_todos_keeps:
  assumes "x \<in> set (on_disk w)" and "tid x \<noteq> None"
  shows "x \<in> set (fst (load_todos w))"
proof (cases "todo_file w")
  case None
  then show ?thesis using assms by (simp add: on_disk_def)
next
  case (Some ts)
  obtain r m where b: "backfill (uuid_src w) (uuid_ctr w) ts = (r, m)" by force
  have "x \<in> set ts" using assms(1) Some by (simp add: on_disk_def)
  then have "x \<in> set r" using backfill_keeps[OF b] assms(2) by blast
  then show ?thesis using Some b by (simp add: load_todos_def)
qed

lemma load_todos_all_ids:
  "\<forall>t\<in>set (on_disk w). tid t \<noteq> None \<Longrightarrow> load_todos w = (on_disk w, w)"
  by (auto simp: load_todos_def on_disk_def backfill_all_ids split: option.splits)

lemma load_todos_world:
  "todo_file (snd (load_todos w)) = todo_file w" "uuid_src (snd (load_todos w)) = uuid_src w"
  by (auto simp: load_todos_def split: option.splits prod.splits)

lemma new_items_filter:
  "filter (\<lambda>t. tid t \<notin> tid ` {x \<in> set cand. tid x \<noteq> None}) (fst (load_todos w))
     = filter (\<lambda>t. tid t \<notin> tid ` set cand) (fst (load_todos w))"
proof (rule filter_cong[OF refl])
  fix t assume "t \<in> set (fst (load_todos w))"
  then have n: "tid t \<noteq> None" by (rule load_todos_ids)
  have "tid t \<in> tid ` {x \<in> set cand. tid x \<noteq> None} \<longleftrightarrow> tid t \<in> tid ` set cand"
    (is "?L \<longleftrightarrow> ?R")
  proof
    assume ?L then show ?R by auto
  next
    assume ?R
    then obtain x where x: "x \<in> set cand" "tid t = tid x" by auto
    with n have "x \<in> {x \<in> set cand. tid x \<noteq> None}" by simp
    then show ?L using x(2) by (rule image_eqI[rotated])
  qed
  then show "(tid t \<notin> tid ` {x \<in> set cand. tid x \<noteq> None}) = (tid t \<notin> tid ` set cand)"
    by simp
qed

lemma save_todos_file_eq:
  "todo_file (save_todos cand w) =
     Some (sort_key get_sort_key
       (cand @ filter (\<lambda>t. tid t \<notin> tid ` set cand) (fst (load_todos w))))"
  unfolding save_todos_file new_items_filter ..

text \<open>
  C1. Whatever the candidate and whatever the file holds, the file written by
  \<open>save_todos\<close> holds exactly the candidate's items together with the loaded items whose
  id occurs nowhere in the candidate. So every item of the candidate is in it, and so is
  every item that was in the file with an id the candidate does not have: an item another
  session added in the meantime is not lost.
\<close>

theorem save_todos_merge:
  "\<exists>fs. todo_file (save_todos cand w) = Some fs
     \<and> mset fs = mset cand + mset (filter (\<lambda>t. tid t \<notin> tid ` set cand) (fst (load_todos w)))
     \<and> set cand \<subseteq> set fs
     \<and> (\<forall>x. x \<in> set (on_disk w) \<and> tid x \<noteq> None \<and> tid x \<notin> tid ` set cand \<longrightarrow> x \<in> set fs)"
proof -
  let ?new = "filter (\<lambda>t. tid t \<notin> tid ` set cand) (fst (load_todos w))"
  let ?fs = "sort_key get_sort_key (cand @ ?new)"
  have f: "todo_file (save_todos cand w) = Some ?fs" by (rule save_todos_file_eq)
  have m: "mset ?fs = mset cand + mset ?new" by simp
  have s: "set cand \<subseteq> set ?fs" by auto
  have x: "x \<in> set ?fs" if "x \<in> set (on_disk w)" "tid x \<noteq> None" "tid x \<notin> tid ` set cand" for x
    using load_todos_keeps[OF that(1,2)] that(3) by simp
  from f m s x show ?thesis by blast
qed

theorem save_todos_merge_witness:
  "\<exists>fs. todo_file (save_todos
            [\<lparr>tid = Some ''a'', task = ''Work: edited'', tdone = Some True, extra = []\<rparr>]
            \<lparr>todo_file = Some [\<lparr>tid = Some ''a'', task = ''Work: x'', tdone = Some False, extra = []\<rparr>,
                                \<lparr>tid = Some ''x'', task = ''New'', tdone = Some False, extra = []\<rparr>],
               uuid_src = (\<lambda>n. ''u''), uuid_ctr = 0\<rparr>) = Some fs
     \<and> \<lparr>tid = Some ''a'', task = ''Work: edited'', tdone = Some True, extra = []\<rparr> \<in> set fs
     \<and> \<lparr>tid = Some ''x'', task = ''New'', tdone = Some False, extra = []\<rparr> \<in> set fs"
proof -
  let ?a = "\<lparr>tid = Some ''a'', task = ''Work: edited'', tdone = Some True, extra = []\<rparr>"
  let ?old = "\<lparr>tid = Some ''a'', task = ''Work: x'', tdone = Some False, extra = []\<rparr>"
  let ?x = "\<lparr>tid = Some ''x'', task = ''New'', tdone = Some False, extra = []\<rparr>"
  let ?w = "\<lparr>todo_file = Some [?old, ?x], uuid_src = (\<lambda>n. ''u''), uuid_ctr = 0\<rparr>"
  from save_todos_merge[of "[?a]" ?w] obtain fs where
    f: "todo_file (save_todos [?a] ?w) = Some fs" and
    s: "set [?a] \<subseteq> set fs" and
    k: "\<forall>x. x \<in> set (on_disk ?w) \<and> tid x \<noteq> None \<and> tid x \<notin> tid ` set [?a] \<longrightarrow> x \<in> set fs"
    by blast
  have "?x \<in> set (on_disk ?w) \<and> tid ?x \<noteq> None \<and> tid ?x \<notin> tid ` set [?a]"
    by (simp add: on_disk_def)
  with k have "?x \<in> set fs" by blast
  moreover have "?a \<in> set fs" using s by simp
  ultimately show ?thesis using f by blast
qed

lemma save_then_load:
  assumes "\<forall>t\<in>set cand. tid t \<noteq> None"
  shows "fst (load_todos (save_todos cand w)) =
     sort_key get_sort_key (cand @ filter (\<lambda>t. tid t \<notin> tid ` set cand) (fst (load_todos w)))"
proof -
  let ?fs = "sort_key get_sort_key (cand @ filter (\<lambda>t. tid t \<notin> tid ` set cand) (fst (load_todos w)))"
  have "on_disk (save_todos cand w) = ?fs" by (simp add: on_disk_def save_todos_file_eq)
  moreover have "\<forall>t\<in>set ?fs. tid t \<noteq> None" using assms load_todos_ids by auto
  ultimately show ?thesis using load_todos_all_ids[of "save_todos cand w"] by simp
qed

text \<open>
  C2, as the code has it. For a collection whose items all carry an id, loading after a
  save gives the decoded tuples of the collection together with those of the loaded items
  whose id the collection does not have (the merge keeps them); it gives exactly the
  collection's tuples when every item in the file has an id that occurs in the collection,
  in particular when the file is missing or empty. Sets are compared, so the order on disk
  plays no part.
\<close>

theorem save_load_round_trip:
  assumes "\<forall>t\<in>set cand. tid t \<noteq> None"
  shows "decoded ` set (fst (load_todos (save_todos cand w)))
           = decoded ` set cand
             \<union> decoded ` {t \<in> set (fst (load_todos w)). tid t \<notin> tid ` set cand}
         \<and> ((\<forall>x\<in>set (on_disk w). tid x \<in> tid ` set cand)
              \<longrightarrow> decoded ` set (fst (load_todos (save_todos cand w))) = decoded ` set cand)"
proof -
  have u: "set (fst (load_todos (save_todos cand w)))
             = set cand \<union> {t \<in> set (fst (load_todos w)). tid t \<notin> tid ` set cand}"
    by (simp add: save_then_load[OF assms])
  have e: "{t \<in> set (fst (load_todos w)). tid t \<notin> tid ` set cand} = {}"
    if h: "\<forall>x\<in>set (on_disk w). tid x \<in> tid ` set cand"
  proof -
    have "\<forall>x\<in>set (on_disk w). tid x \<noteq> None" using h assms by force
    then have "fst (load_todos w) = on_disk w" by (simp add: load_todos_all_ids)
    then show ?thesis using h by auto
  qed
  from u e show ?thesis by (auto simp: image_Un)
qed


theorem save_load_round_trip_witness:
  "decoded ` set (fst (load_todos (save_todos
       [\<lparr>tid = Some ''a'', task = ''! Work: edited'', tdone = Some True, extra = []\<rparr>]
       \<lparr>todo_file = Some [\<lparr>tid = Some ''a'', task = ''Work: x'', tdone = Some False, extra = []\<rparr>],
          uuid_src = (\<lambda>n. ''u''), uuid_ctr = 0\<rparr>)))
   = {(Some ''a'', 1, ''Work'', ''edited'', Some True)}"
proof -
  let ?a = "\<lparr>tid = Some ''a'', task = ''! Work: edited'', tdone = Some True, extra = []\<rparr>"
  let ?old = "\<lparr>tid = Some ''a'', task = ''Work: x'', tdone = Some False, extra = []\<rparr>"
  let ?w = "\<lparr>todo_file = Some [?old], uuid_src = (\<lambda>n. ''u''), uuid_ctr = 0\<rparr>"
  have h1: "\<forall>t\<in>set [?a]. tid t \<noteq> None" by simp
  have h2: "\<forall>x\<in>set (on_disk ?w). tid x \<in> tid ` set [?a]" by (simp add: on_disk_def)
  have d: "decoded ?a = (Some ''a'', 1, ''Work'', ''edited'', Some True)" by code_simp
  from save_load_round_trip[OF h1, of ?w] h2
  have "decoded ` set (fst (load_todos (save_todos [?a] ?w))) = decoded ` set [?a]" by blast
  then show ?thesis using d by simp
qed

text \<open>
  C2 as written promises the same set after any save. With an item in the file whose id
  the saved collection does not have, the reloaded collection has one tuple more.
\<close>

theorem save_load_round_trip_counterexample:
  "decoded ` set (fst (load_todos (save_todos
       [\<lparr>tid = Some ''a'', task = ''Work: x'', tdone = Some False, extra = []\<rparr>]
       \<lparr>todo_file = Some [\<lparr>tid = Some ''b'', task = ''Solo'', tdone = Some False, extra = []\<rparr>],
          uuid_src = (\<lambda>n. ''u''), uuid_ctr = 0\<rparr>)))
   \<noteq> decoded ` set [\<lparr>tid = Some ''a'', task = ''Work: x'', tdone = Some False, extra = []\<rparr>]"
proof -
  let ?a = "\<lparr>tid = Some ''a'', task = ''Work: x'', tdone = Some False, extra = []\<rparr>"
  let ?b = "\<lparr>tid = Some ''b'', task = ''Solo'', tdone = Some False, extra = []\<rparr>"
  let ?w = "\<lparr>todo_file = Some [?b], uuid_src = (\<lambda>n. ''u''), uuid_ctr = 0\<rparr>"
  have l: "fst (load_todos (save_todos [?a] ?w)) = [?a, ?b]" by code_simp
  have "decoded ?b \<in> decoded ` set (fst (load_todos (save_todos [?a] ?w)))"
    unfolding l by simp
  moreover have "decoded ?b \<notin> decoded ` set [?a]" by (simp add: decoded_def)
  ultimately show ?thesis by blast
qed

section \<open>Group model: the loops against the description\<close>

lemma get_done_iff: "get_done t \<longleftrightarrow> tdone t = Some True"
  by (simp add: get_done_def split: option.splits)

lemma bucket_step_group:
  "bucket_step h (i, t) b =
     (if h \<and> get_done t then b else add_to_group (get_todo_group t) i b)"
  by (simp add: bucket_step_def get_todo_group_def Let_def)

lemma first_occurrences_snoc:
  "first_occurrences (xs @ [x]) =
     (if x \<in> set xs then first_occurrences xs else first_occurrences xs @ [x])"
  by (simp add: first_occurrences_def)

lemma set_first_occurrences: "set (first_occurrences xs) = set xs"
  by (simp add: first_occurrences_def)

lemma members_of_snoc:
  "members_of g (v @ [(i, t)]) = members_of g v @ (if get_todo_group t = g then [i] else [])"
  by (simp add: members_of_def)

lemma members_of_empty:
  "g \<notin> (\<lambda>(i, t). get_todo_group t) ` set v \<Longrightarrow> members_of g v = []"
  by (auto simp: members_of_def filter_empty_conv)

lemma add_to_group_buckets:
  "add_to_group (get_todo_group t) i (buckets_of v) = buckets_of (v @ [(i, t)])"
proof -
  let ?g = "get_todo_group t"
  let ?names = "(\<lambda>(i, t). get_todo_group t) ` set v"
  show ?thesis
  proof (cases "?g \<in> ?names")
    case True
    then have "?g \<in> set (map (\<lambda>(i, t). get_todo_group t) v)" by simp
    then show ?thesis using True
      by (auto simp: add_to_group_def buckets_of_def lookup_group_def first_occurrences_snoc
          members_of_snoc Let_def fun_eq_iff)
  next
    case False
    then have n: "?g \<notin> set (map (\<lambda>(i, t). get_todo_group t) v)" by simp
    have e: "members_of ?g v = []" using False by (rule members_of_empty)
    show ?thesis using False n e
      by (auto simp: add_to_group_def buckets_of_def lookup_group_def first_occurrences_snoc
          members_of_snoc Let_def fun_eq_iff)
  qed
qed

lemma fold_bucket_step:
  "fold (bucket_step h) es (buckets_of []) =
     buckets_of (filter (\<lambda>(i, t). \<not> (h \<and> get_done t)) es)"
proof (induction es rule: rev_induct)
  case Nil
  show ?case by simp
next
  case (snoc e es)
  obtain i t where e: "e = (i, t)" by (cases e)
  show ?case
    using snoc.IH by (simp add: e bucket_step_group add_to_group_buckets)
qed

lemma bucket_todos_eq: "bucket_todos h ts = buckets_of (visible_items h ts)"
proof -
  have "buckets_of [] = (Map.empty, [])"
    by (simp add: buckets_of_def first_occurrences_def)
  then show ?thesis
    using fold_bucket_step[of h "enumerate 0 ts"]
    by (simp add: bucket_todos_def visible_items_def get_done_iff)
qed

lemma bucket_todos_dom:
  "bucket_todos h ts = (groups, group_order) \<Longrightarrow> set group_order = dom groups"
  by (auto simp: bucket_todos_eq buckets_of_def set_first_occurrences dom_def
      split: if_splits)

lemma lookup_buckets_of: "lookup_group (fst (buckets_of v)) g = members_of g v"
  by (simp add: buckets_of_def lookup_group_def members_of_empty)

lemma fold_append_concat: "fold (\<lambda>g items. items @ f g) xs acc = acc @ concat (map f xs)"
  by (induction xs arbitrary: acc) simp_all

lemma build_selectable_items_concat:
  "build_selectable_items ts collapsed h = spec_selectable ts collapsed h"
proof -
  let ?v = "visible_items h ts"
  have e: "emit_group (fst (buckets_of ?v)) collapsed =
      (\<lambda>g. if g \<noteq> ungrouped \<and> g \<in> collapsed then [Group g]
           else map Todo (members_of g ?v))"
    by (rule ext) (simp add: emit_group_def lookup_buckets_of)
  have "build_selectable_items ts collapsed h =
      concat (map (emit_group (fst (buckets_of ?v)) collapsed) (snd (buckets_of ?v)))"
    by (simp add: build_selectable_items_def bucket_todos_eq fold_append_concat
        split: prod.splits)
  also have "\<dots> = concat (map (\<lambda>g. if g \<noteq> ungrouped \<and> g \<in> collapsed then [Group g]
                                       else map Todo (members_of g ?v))
                                 (snd (buckets_of ?v)))"
    by (simp only: e)
  also have "\<dots> = spec_selectable ts collapsed h"
    by (simp add: spec_selectable_def Let_def buckets_of_def)
  finally show ?thesis .
qed

text \<open>
  C7. For every collection, collapsed set and flag, the list that the two loops of
  \<open>build_selectable_items\<close> produce is the one the description gives: the items whose
  done flag is true dropped when completed items are hidden, the rest bucketed by group in
  the order in which the groups first occur in the collection (nothing is sorted again),
  one header for a named group that is collapsed, one entry per member in order for a named
  group that is not, and one entry per member for the ungrouped bucket whatever the
  collapsed set says.
\<close>

theorem build_selectable_items_spec:
  "build_selectable_items ts collapsed h = spec_selectable ts collapsed h"
  by (rule build_selectable_items_concat)

theorem build_selectable_items_spec_witness:
  "spec_selectable
     [\<lparr>tid = Some ''a'', task = ''Work: x'', tdone = Some False, extra = []\<rparr>,
      \<lparr>tid = Some ''b'', task = ''Solo'', tdone = Some True, extra = []\<rparr>,
      \<lparr>tid = Some ''c'', task = ''! Work : y'', tdone = Some True, extra = []\<rparr>,
      \<lparr>tid = Some ''d'', task = ''Home: z'', tdone = Some False, extra = []\<rparr>,
      \<lparr>tid = Some ''e'', task = ''Later'', tdone = None, extra = []\<rparr>]
     {''Home''} True
   = [Todo 0, Group ''Home'', Todo 4]
   \<and> build_selectable_items
     [\<lparr>tid = Some ''a'', task = ''Work: x'', tdone = Some False, extra = []\<rparr>,
      \<lparr>tid = Some ''b'', task = ''Solo'', tdone = Some True, extra = []\<rparr>,
      \<lparr>tid = Some ''c'', task = ''! Work : y'', tdone = Some True, extra = []\<rparr>,
      \<lparr>tid = Some ''d'', task = ''Home: z'', tdone = Some False, extra = []\<rparr>,
      \<lparr>tid = Some ''e'', task = ''Later'', tdone = None, extra = []\<rparr>]
     {''Home''} True
   = [Todo 0, Group ''Home'', Todo 4]
   \<and> spec_selectable
     [\<lparr>tid = Some ''a'', task = ''Work: x'', tdone = Some False, extra = []\<rparr>,
      \<lparr>tid = Some ''b'', task = ''Solo'', tdone = Some True, extra = []\<rparr>,
      \<lparr>tid = Some ''c'', task = ''! Work : y'', tdone = Some True, extra = []\<rparr>,
      \<lparr>tid = Some ''d'', task = ''Home: z'', tdone = Some False, extra = []\<rparr>,
      \<lparr>tid = Some ''e'', task = ''Later'', tdone = None, extra = []\<rparr>]
     {''Home''} False
   = [Todo 0, Todo 2, Todo 1, Todo 4, Group ''Home'']
   \<and> build_selectable_items
     [\<lparr>tid = Some ''a'', task = ''Work: x'', tdone = Some False, extra = []\<rparr>,
      \<lparr>tid = Some ''b'', task = ''Solo'', tdone = Some True, extra = []\<rparr>,
      \<lparr>tid = Some ''c'', task = ''! Work : y'', tdone = Some True, extra = []\<rparr>,
      \<lparr>tid = Some ''d'', task = ''Home: z'', tdone = Some False, extra = []\<rparr>,
      \<lparr>tid = Some ''e'', task = ''Later'', tdone = None, extra = []\<rparr>]
     {''Home''} False
   = [Todo 0, Todo 2, Todo 1, Todo 4, Group ''Home'']"
proof -
  let ?ts = "[\<lparr>tid = Some ''a'', task = ''Work: x'', tdone = Some False, extra = []\<rparr>,
      \<lparr>tid = Some ''b'', task = ''Solo'', tdone = Some True, extra = []\<rparr>,
      \<lparr>tid = Some ''c'', task = ''! Work : y'', tdone = Some True, extra = []\<rparr>,
      \<lparr>tid = Some ''d'', task = ''Home: z'', tdone = Some False, extra = []\<rparr>,
      \<lparr>tid = Some ''e'', task = ''Later'', tdone = None, extra = []\<rparr>]"
  have hidden: "spec_selectable ?ts {''Home''} True = [Todo 0, Group ''Home'', Todo 4]"
    by code_simp
  have shown: "spec_selectable ?ts {''Home''} False
      = [Todo 0, Todo 2, Todo 1, Todo 4, Group ''Home'']"
    by code_simp
  from hidden shown
    build_selectable_items_spec[of ?ts "{''Home''}" True]
    build_selectable_items_spec[of ?ts "{''Home''}" False]
  show ?thesis by simp
qed

lemma selectable_index_valid:
  "Todo v \<in> set (build_selectable_items ts collapsed h) \<Longrightarrow> v < length ts"
proof -
  assume "Todo v \<in> set (build_selectable_items ts collapsed h)"
  then obtain g where "v \<in> set (members_of g (visible_items h ts))"
    unfolding build_selectable_items_concat spec_selectable_def Let_def
    by (auto split: if_splits)
  then have "v \<in> fst ` set (enumerate 0 ts)"
    by (auto simp: members_of_def visible_items_def)
  then show "v < length ts" by (auto simp: in_set_enumerate_eq)
qed

section \<open>Moving the focus\<close>

lemma find_pos_none:
  assumes "\<forall>v. Todo v \<in> set es \<longrightarrow> v < length (todos s)"
    and "focus_of s \<notin> entry_focus (todos s) ` set es"
  shows "find_pos s es i = Inr (- 1)"
  using assms
proof (induction es arbitrary: i)
  case Nil
  show ?case by simp
next
  case (Cons e es)
  then have ih: "find_pos s es (i + 1) = Inr (- 1)" by simp
  from Cons.prems(2) have ne: "entry_focus (todos s) e \<noteq> focus_of s" by auto
  show ?case
  proof (cases e)
    case (Todo v)
    then have "v < length (todos s)" using Cons.prems(1) by simp
    then show ?thesis using Todo ne ih
      by (auto simp: entry_focus_def focus_of_def split: sel_type.splits)
  next
    case (Group g)
    then show ?thesis using ne ih
      by (auto simp: entry_focus_def focus_of_def split: sel_type.splits)
  qed
qed

lemma find_pos_first:
  assumes "\<forall>v. Todo v \<in> set es \<longrightarrow> v < length (todos s)"
    and "p < length es"
    and "entry_focus (todos s) (es ! p) = focus_of s"
    and "\<forall>q<p. entry_focus (todos s) (es ! q) \<noteq> focus_of s"
  shows "find_pos s es i = Inr (i + int p)"
  using assms
proof (induction es arbitrary: i p)
  case Nil
  then show ?case by simp
next
  case (Cons e es)
  show ?case
  proof (cases p)
    case 0
    then have m: "entry_focus (todos s) e = focus_of s" using Cons.prems(3) by simp
    show ?thesis
    proof (cases e)
      case (Todo v)
      then have "v < length (todos s)" using Cons.prems(1) by simp
      then show ?thesis using Todo m 0
        by (auto simp: entry_focus_def focus_of_def split: sel_type.splits)
    next
      case (Group g)
      then show ?thesis using m 0
        by (auto simp: entry_focus_def focus_of_def split: sel_type.splits)
    qed
  next
    case (Suc p')
    have ne: "entry_focus (todos s) e \<noteq> focus_of s" using Cons.prems(4) Suc by auto
    have "find_pos s es (i + 1) = Inr (i + 1 + int p')"
    proof (rule Cons.IH)
      show "\<forall>v. Todo v \<in> set es \<longrightarrow> v < length (todos s)" using Cons.prems(1) by simp
      show "p' < length es" using Cons.prems(2) Suc by simp
      show "entry_focus (todos s) (es ! p') = focus_of s" using Cons.prems(3) Suc by simp
      show "\<forall>q<p'. entry_focus (todos s) (es ! q) \<noteq> focus_of s"
        using Cons.prems(4) Suc by auto
    qed
    then have ih: "find_pos s es (i + 1) = Inr (i + int p)" using Suc by simp
    show ?thesis
    proof (cases e)
      case (Todo v)
      then have "v < length (todos s)" using Cons.prems(1) by simp
      then show ?thesis using Todo ne ih
        by (auto simp: entry_focus_def focus_of_def split: sel_type.splits)
    next
      case (Group g)
      then show ?thesis using ne ih
        by (auto simp: entry_focus_def focus_of_def split: sel_type.splits)
    qed
  qed
qed

lemma select_entry_focus:
  assumes "\<forall>t\<in>set (todos s). tid t \<noteq> None"
    and "\<forall>v. e = Todo v \<longrightarrow> v < length (todos s)"
  shows "\<exists>s'. select_entry e s = Inr s' \<and> focus_of s' = entry_focus (todos s) e
            \<and> todos s' = todos s"
proof (cases e)
  case (Todo v)
  then have v: "v < length (todos s)" using assms(2) by simp
  then have "tid (todos s ! v) \<noteq> None" using assms(1) by simp
  then obtain x where "tid (todos s ! v) = Some x" by blast
  then show ?thesis using Todo v
    by (simp add: select_entry_def get_id_def focus_of_def entry_focus_def)
next
  case (Group g)
  then show ?thesis by (simp add: select_entry_def focus_of_def entry_focus_def)
qed

lemma leave_input_focus:
  "r = Inr s1 \<Longrightarrow> \<exists>s'. leave_input r = Inr s' \<and> focus_of s' = focus_of s1 \<and> todos s' = todos s1"
  by (simp add: leave_input_def focus_of_def split: sel_type.splits)

lemma build_selectable_items_Nil: "build_selectable_items [] c h = []"
  by (simp add: build_selectable_items_concat spec_selectable_def visible_items_def
      first_occurrences_def)

lemma move_to_focus:
  assumes "\<forall>t\<in>set (todos s). tid t \<noteq> None"
    and "\<forall>v. Todo v \<in> set sel \<longrightarrow> v < length (todos s)"
    and "k < length sel"
  shows "\<exists>s'. leave_input (move_to (int k) sel s) = Inr s'
            \<and> focus_of s' = entry_focus (todos s) (sel ! k)"
proof -
  have "\<forall>v. sel ! k = Todo v \<longrightarrow> v < length (todos s)"
    using assms(2,3) by (metis nth_mem)
  from select_entry_focus[OF assms(1) this] obtain s1 where
    "select_entry (sel ! k) s = Inr s1" "focus_of s1 = entry_focus (todos s) (sel ! k)"
    by blast
  then show ?thesis using assms(3) leave_input_focus[of "Inr s1" s1]
    by (auto simp: move_to_def)
qed

lemma key_down_focus:
  assumes ids: "\<forall>t\<in>set (todos s). tid t \<noteq> None"
    and sel: "sel = build_selectable_items (todos s) (collapsed_groups s) (hide_completed s)"
    and ne: "sel \<noteq> []"
    and pos: "find_pos s sel 0 = Inr c" and c: "- 1 \<le> c" "c < int (length sel)"
    and stay: "c = int (length sel) - 1 \<Longrightarrow> focus_of s = entry_focus (todos s) (sel ! nat c)"
  shows "\<exists>s'. key_down s = Inr s'
           \<and> focus_of s' = entry_focus (todos s) (sel ! min (nat (c + 1)) (length sel - 1))"
proof -
  have valid: "\<forall>v. Todo v \<in> set sel \<longrightarrow> v < length (todos s)"
    unfolding sel using selectable_index_valid by blast
  have tne: "todos s \<noteq> []" using ne sel build_selectable_items_Nil by force
  show ?thesis
  proof (cases "c < int (length sel) - 1")
    case True
    then have k: "nat (c + 1) < length sel" using c by linarith
    have kd: "key_down s = leave_input (move_to (int (nat (c + 1))) sel s)"
      using tne ne pos True c unfolding key_down_def sel[symmetric] Let_def by simp
    have "min (nat (c + 1)) (length sel - 1) = nat (c + 1)" using k by simp
    then show ?thesis using move_to_focus[OF ids valid k] kd by simp
  next
    case False
    then have ce: "c = int (length sel) - 1" using c by linarith
    have kd: "key_down s = leave_input (Inr s)"
      using tne ne pos False unfolding key_down_def sel[symmetric] Let_def by simp
    have "min (nat (c + 1)) (length sel - 1) = nat c" using ce ne by (cases sel) auto
    then show ?thesis using leave_input_focus[of "Inr s" s] kd stay[OF ce] by auto
  qed
qed

lemma key_up_focus:
  assumes ids: "\<forall>t\<in>set (todos s). tid t \<noteq> None"
    and sel: "sel = build_selectable_items (todos s) (collapsed_groups s) (hide_completed s)"
    and ne: "sel \<noteq> []"
    and pos: "find_pos s sel 0 = Inr c" and c: "c < int (length sel)"
  shows "\<exists>s'. key_up s = Inr s'
           \<and> focus_of s' = (if c > 0 then entry_focus (todos s) (sel ! nat (c - 1))
                            else focus_of s)"
proof -
  have valid: "\<forall>v. Todo v \<in> set sel \<longrightarrow> v < length (todos s)"
    unfolding sel using selectable_index_valid by blast
  have tne: "todos s \<noteq> []" using ne sel build_selectable_items_Nil by force
  show ?thesis
  proof (cases "c > 0")
    case True
    then have k: "nat (c - 1) < length sel" using c by linarith
    have ku: "key_up s = leave_input (move_to (int (nat (c - 1))) sel s)"
      using tne ne pos True unfolding key_up_def sel[symmetric] Let_def by simp
    show ?thesis using move_to_focus[OF ids valid k] ku True by simp
  next
    case False
    have ku: "key_up s = leave_input (Inr s)"
      using tne ne pos False unfolding key_up_def sel[symmetric] Let_def by simp
    show ?thesis using leave_input_focus[of "Inr s" s] ku False by auto
  qed
qed

text \<open>
  C10. Let the selectable list be non-empty (and every item carry an id, as after a
  load). When no entry of the list matches the focus, \<^verbatim>\<open>KEY_DOWN\<close> moves the focus to
  the first entry while \<^verbatim>\<open>KEY_UP\<close> leaves it as it is. When the focus is found, first at
  position \<open>p\<close>, \<^verbatim>\<open>KEY_DOWN\<close> moves it to the entry at \<open>p + 1\<close> and \<^verbatim>\<open>KEY_UP\<close>
  to the entry at \<open>p - 1\<close>, staying at the last and at the first entry.
\<close>

theorem focus_movement:
  assumes "\<forall>t\<in>set (todos s). tid t \<noteq> None"
    and "sel = build_selectable_items (todos s) (collapsed_groups s) (hide_completed s)"
    and "sel \<noteq> []"
  shows "(focus_of s \<notin> entry_focus (todos s) ` set sel \<longrightarrow>
            (\<exists>s'. key_down s = Inr s' \<and> focus_of s' = entry_focus (todos s) (sel ! 0))
          \<and> (\<exists>s'. key_up s = Inr s' \<and> focus_of s' = focus_of s))
       \<and> (\<forall>p. p < length sel \<and> entry_focus (todos s) (sel ! p) = focus_of s
              \<and> (\<forall>q<p. entry_focus (todos s) (sel ! q) \<noteq> focus_of s) \<longrightarrow>
            (\<exists>s'. key_down s = Inr s'
                 \<and> focus_of s' = entry_focus (todos s) (sel ! min (p + 1) (length sel - 1)))
          \<and> (\<exists>s'. key_up s = Inr s'
                 \<and> focus_of s' = entry_focus (todos s) (sel ! (p - 1))))"
proof -
  have valid: "\<forall>v. Todo v \<in> set sel \<longrightarrow> v < length (todos s)"
    unfolding assms(2) using selectable_index_valid by blast
  have stale: "(\<exists>s'. key_down s = Inr s' \<and> focus_of s' = entry_focus (todos s) (sel ! 0))
          \<and> (\<exists>s'. key_up s = Inr s' \<and> focus_of s' = focus_of s)"
    if "focus_of s \<notin> entry_focus (todos s) ` set sel"
  proof -
    have pos: "find_pos s sel 0 = Inr (- 1)" using find_pos_none[OF valid that] .
    have "- 1 = int (length sel) - 1 \<Longrightarrow> focus_of s = entry_focus (todos s) (sel ! nat (- 1))"
      using assms(3) by simp
    from key_down_focus[OF assms pos _ _ this] key_up_focus[OF assms pos]
    show ?thesis by simp
  qed
  have found: "(\<exists>s'. key_down s = Inr s'
                 \<and> focus_of s' = entry_focus (todos s) (sel ! min (p + 1) (length sel - 1)))
          \<and> (\<exists>s'. key_up s = Inr s'
                 \<and> focus_of s' = entry_focus (todos s) (sel ! (p - 1)))"
    if "p < length sel" "entry_focus (todos s) (sel ! p) = focus_of s"
       "\<forall>q<p. entry_focus (todos s) (sel ! q) \<noteq> focus_of s" for p
  proof -
    have pos: "find_pos s sel 0 = Inr (int p)" using find_pos_first[OF valid that, of 0] by simp
    have "nat (int p) = p" by simp
    then have st: "int p = int (length sel) - 1 \<Longrightarrow>
        focus_of s = entry_focus (todos s) (sel ! nat (int p))" using that(2) by metis
    have d: "\<exists>s'. key_down s = Inr s'
        \<and> focus_of s' = entry_focus (todos s) (sel ! min (nat (int p + 1)) (length sel - 1))"
      using key_down_focus[OF assms pos _ _ st] that(1) by simp
    have "nat (int p + 1) = p + 1" by simp
    with d have d': "\<exists>s'. key_down s = Inr s'
        \<and> focus_of s' = entry_focus (todos s) (sel ! min (p + 1) (length sel - 1))" by simp
    have u: "\<exists>s'. key_up s = Inr s'
        \<and> focus_of s' = (if int p > 0 then entry_focus (todos s) (sel ! nat (int p - 1))
                         else focus_of s)"
      using key_up_focus[OF assms pos] that(1) by simp
    have "(if int p > 0 then entry_focus (todos s) (sel ! nat (int p - 1)) else focus_of s)
          = entry_focus (todos s) (sel ! (p - 1))"
      using that(2) by (cases p) (simp_all add: nat_diff_distrib')
    with u d' show ?thesis by simp
  qed
  from stale found show ?thesis by blast
qed

theorem focus_movement_witness:
  "(\<exists>s'. key_down \<lparr>todos = [\<lparr>tid = Some ''a'', task = ''Work: x'', tdone = Some False, extra = []\<rparr>,
                              \<lparr>tid = Some ''b'', task = ''Solo'', tdone = Some False, extra = []\<rparr>],
                      last_mtime = 0, just_saved = False, selected = 0,
                      selected_id = Some ''z'', selected_type = SelTodo, selected_group = None,
                      input_text = [], cursor_pos = 0, input_mode = False, editing_id = None,
                      collapsed_groups = {}, show_help = False, hide_completed = False\<rparr> = Inr s'
         \<and> focus_of s' = FTodo (Some ''a''))
   \<and> (\<exists>s'. key_up \<lparr>todos = [\<lparr>tid = Some ''a'', task = ''Work: x'', tdone = Some False, extra = []\<rparr>,
                              \<lparr>tid = Some ''b'', task = ''Solo'', tdone = Some False, extra = []\<rparr>],
                      last_mtime = 0, just_saved = False, selected = 0,
                      selected_id = Some ''z'', selected_type = SelTodo, selected_group = None,
                      input_text = [], cursor_pos = 0, input_mode = False, editing_id = None,
                      collapsed_groups = {}, show_help = False, hide_completed = False\<rparr> = Inr s'
         \<and> focus_of s' = FTodo (Some ''z''))
   \<and> (\<exists>s'. key_down \<lparr>todos = [\<lparr>tid = Some ''a'', task = ''Work: x'', tdone = Some False, extra = []\<rparr>,
                              \<lparr>tid = Some ''b'', task = ''Solo'', tdone = Some False, extra = []\<rparr>],
                      last_mtime = 0, just_saved = False, selected = 0,
                      selected_id = Some ''a'', selected_type = SelTodo, selected_group = None,
                      input_text = [], cursor_pos = 0, input_mode = False, editing_id = None,
                      collapsed_groups = {}, show_help = False, hide_completed = False\<rparr> = Inr s'
         \<and> focus_of s' = FTodo (Some ''b''))
   \<and> (\<exists>s'. key_up \<lparr>todos = [\<lparr>tid = Some ''a'', task = ''Work: x'', tdone = Some False, extra = []\<rparr>,
                              \<lparr>tid = Some ''b'', task = ''Solo'', tdone = Some False, extra = []\<rparr>],
                      last_mtime = 0, just_saved = False, selected = 0,
                      selected_id = Some ''a'', selected_type = SelTodo, selected_group = None,
                      input_text = [], cursor_pos = 0, input_mode = False, editing_id = None,
                      collapsed_groups = {}, show_help = False, hide_completed = False\<rparr> = Inr s'
         \<and> focus_of s' = FTodo (Some ''a''))"
proof -
  let ?ts = "[\<lparr>tid = Some ''a'', task = ''Work: x'', tdone = Some False, extra = []\<rparr>,
              \<lparr>tid = Some ''b'', task = ''Solo'', tdone = Some False, extra = []\<rparr>]"
  let ?stale = "\<lparr>todos = ?ts, last_mtime = 0, just_saved = False, selected = 0,
                      selected_id = Some ''z'', selected_type = SelTodo, selected_group = None,
                      input_text = [], cursor_pos = 0, input_mode = False, editing_id = None,
                      collapsed_groups = {}, show_help = False, hide_completed = False\<rparr>"
  let ?found = "\<lparr>todos = ?ts, last_mtime = 0, just_saved = False, selected = 0,
                      selected_id = Some ''a'', selected_type = SelTodo, selected_group = None,
                      input_text = [], cursor_pos = 0, input_mode = False, editing_id = None,
                      collapsed_groups = {}, show_help = False, hide_completed = False\<rparr>"
  let ?sel = "[Todo 0, Todo 1]"
  have b: "build_selectable_items ?ts {} False = ?sel" by code_simp
  have ids1: "\<forall>t\<in>set (todos ?stale). tid t \<noteq> None" by simp
  have ids2: "\<forall>t\<in>set (todos ?found). tid t \<noteq> None" by simp
  have s1: "?sel = build_selectable_items (todos ?stale) (collapsed_groups ?stale)
      (hide_completed ?stale)" using b by simp
  have s2: "?sel = build_selectable_items (todos ?found) (collapsed_groups ?found)
      (hide_completed ?found)" using b by simp
  have ne: "?sel \<noteq> []" by simp
  have n: "focus_of ?stale \<notin> entry_focus (todos ?stale) ` set ?sel"
    by (simp add: focus_of_def entry_focus_def)
  have f: "0 < length ?sel \<and> entry_focus (todos ?found) (?sel ! 0) = focus_of ?found
      \<and> (\<forall>q<0. entry_focus (todos ?found) (?sel ! q) \<noteq> focus_of ?found)"
    by (simp add: focus_of_def entry_focus_def)
  note A = focus_movement[OF ids1 s1 ne, THEN conjunct1, THEN mp, OF n]
  note B = focus_movement[OF ids2 s2 ne, THEN conjunct2, THEN spec, THEN mp, OF f]
  have e0: "entry_focus (todos ?stale) (?sel ! 0) = FTodo (Some ''a'')"
    by (simp add: entry_focus_def)
  have e1: "entry_focus (todos ?found) (?sel ! min (0 + 1) (length ?sel - 1)) = FTodo (Some ''b'')"
    by (simp add: entry_focus_def)
  have e2: "entry_focus (todos ?found) (?sel ! (0 - 1)) = FTodo (Some ''a'')"
    by (simp add: entry_focus_def)
  have z: "focus_of ?stale = FTodo (Some ''z'')" by (simp add: focus_of_def)
  from A B show ?thesis unfolding e0 e1 e2 z by blast
qed

section \<open>Reloading after an external change\<close>

lemma find_by_id_None: "find_by_id x ts = None \<longleftrightarrow> x \<notin> tid ` set ts"
  by (induction ts) auto

lemma find_by_id_Some:
  "find_by_id x ts = Some i \<Longrightarrow> i < length ts \<and> tid (ts ! i) = x \<and> (\<forall>j<i. tid (ts ! j) \<noteq> x)"
proof (induction ts arbitrary: i)
  case Nil
  then show ?case by simp
next
  case (Cons t ts)
  show ?case
  proof (cases "tid t = x")
    case True
    then show ?thesis using Cons.prems by auto
  next
    case False
    then obtain i' where i': "find_by_id x ts = Some i'" "i = Suc i'"
      using Cons.prems by auto
    from Cons.IH[OF i'(1)] False i'(2) show ?thesis
      by (auto simp: nth_Cons split: nat.splits)
  qed
qed

lemma get_id_loaded:
  assumes "ts = fst (load_todos w)" and "i < length ts"
  shows "get_id ts i = (case tid (ts ! i) of Some x \<Rightarrow> Inr x | None \<Rightarrow> Inl KeyError)
         \<and> tid (ts ! i) \<noteq> None"
  using assms load_todos_ids[of "ts ! i" w] by (simp add: get_id_def)

lemma find_by_id_first:
  "k < length ts \<Longrightarrow> tid (ts ! k) = x \<Longrightarrow> \<forall>j<k. tid (ts ! j) \<noteq> x
     \<Longrightarrow> find_by_id x ts = Some k"
proof (induction ts arbitrary: k)
  case Nil
  then show ?case by simp
next
  case (Cons t ts)
  show ?case
  proof (cases k)
    case 0
    then show ?thesis using Cons.prems by simp
  next
    case (Suc k')
    have "tid t \<noteq> x" using Cons.prems(3) Suc by auto
    moreover have "\<forall>j<k'. tid (ts ! j) \<noteq> x"
    proof (intro allI impI)
      fix j assume "j < k'"
      then have "Suc j < k" using Suc by simp
      then have "tid ((t # ts) ! Suc j) \<noteq> x" using Cons.prems(3) by blast
      then show "tid (ts ! j) \<noteq> x" by simp
    qed
    then have "find_by_id x ts = Some k'"
      using Cons.IH[of k'] Cons.prems(1,2) Suc by simp
    ultimately show ?thesis using Suc by simp
  qed
qed

lemma truthy_iff: "truthy x \<longleftrightarrow> (\<exists>i. x = Some i \<and> i \<noteq> [])"
  by (cases x) (simp_all add: truthy_def)

lemma reload_check_cases:
  assumes "\<not> just_saved s" and "last_mtime s < cur" and "load_todos w = (ts, w1)"
  shows "reload_check cur w s =
     (w1, Inr (s\<lparr>todos := ts, last_mtime := cur,
        selected :=
          (if truthy (selected_id s) then
             (case find_by_id (selected_id s) ts of
                Some k \<Rightarrow> k
              | None \<Rightarrow> if ts = [] then 0 else min (selected s) (length ts - 1))
           else if ts = [] then selected s else 0),
        selected_id :=
          (if truthy (selected_id s) then
             (if ts = [] then None else selected_id s)
           else if ts = [] then selected_id s else tid (ts ! 0))\<rparr>))"
proof -
  have ts: "ts = fst (load_todos w)" using assms(3) by simp
  show ?thesis
  proof (cases "truthy (selected_id s)")
    case True
    show ?thesis
    proof (cases "find_by_id (selected_id s) ts")
      case (Some k)
      then have "ts \<noteq> []" by (cases ts) auto
      then show ?thesis using assms True Some
        by (simp add: reload_check_def Let_def)
    next
      case None
      then show ?thesis using assms True
        by (auto simp: reload_check_def Let_def min_def)
    qed
  next
    case False
    show ?thesis
    proof (cases "ts = []")
      case True
      then show ?thesis using assms False
        by (simp add: reload_check_def Let_def)
    next
      case ne: False
      then have "0 < length ts" by simp
      from get_id_loaded[OF ts this] obtain x where
        "tid (ts ! 0) = Some x" "get_id ts 0 = Inr x" by (auto split: option.splits)
      then show ?thesis using assms False ne
        by (simp add: reload_check_def Let_def)
    qed
  qed
qed

text \<open>
  C5, as the code has it. When the file is reloaded (no save of the session's own pending,
  and a later modification time), nothing of the session changes but the collection, the
  recorded time, the row and the selected id, and these are reconciled against the loaded
  collection, not against the selectable list. A selected (non-empty) id that occurs in
  the collection is kept, with the row set to its first position. With an empty collection
  a selected id is cleared and the row set to 0; without a selected id, id and row stay.
  Without a selected id and with a non-empty collection, the first item's id is selected at
  row 0. With a selected id that does not occur in a non-empty collection, the row is the
  old row, or the last row when the old row is beyond it. The selection type and the
  selected group name are never looked up and stay as they were.
\<close>

theorem reload_reconcile:
  assumes "\<not> just_saved s" and "last_mtime s < cur"
  shows "\<exists>s'. reload_check cur w s = (snd (load_todos w), Inr s')
     \<and> s'\<lparr>selected := 0, selected_id := None\<rparr>
         = s\<lparr>todos := fst (load_todos w), last_mtime := cur, selected := 0,
              selected_id := None\<rparr>
     \<and> (\<forall>i k. selected_id s = Some i \<and> i \<noteq> [] \<and> k < length (todos s')
               \<and> tid (todos s' ! k) = Some i \<and> (\<forall>j<k. tid (todos s' ! j) \<noteq> Some i)
            \<longrightarrow> selected_id s' = Some i \<and> selected s' = k)
     \<and> (todos s' = [] \<and> (\<exists>i. selected_id s = Some i \<and> i \<noteq> [])
            \<longrightarrow> selected_id s' = None \<and> selected s' = 0)
     \<and> (todos s' = [] \<and> \<not> (\<exists>i. selected_id s = Some i \<and> i \<noteq> [])
            \<longrightarrow> selected_id s' = selected_id s \<and> selected s' = selected s)
     \<and> (todos s' \<noteq> [] \<and> \<not> (\<exists>i. selected_id s = Some i \<and> i \<noteq> [])
            \<longrightarrow> selected_id s' = tid (todos s' ! 0) \<and> selected s' = 0)
     \<and> (\<forall>i. selected_id s = Some i \<and> i \<noteq> [] \<and> Some i \<notin> tid ` set (todos s')
               \<and> todos s' \<noteq> []
            \<longrightarrow> selected s' = min (selected s) (length (todos s') - 1))"
proof -
  obtain ts w1 where l: "load_todos w = (ts, w1)" by force
  note r = reload_check_cases[OF assms l]
  let ?s' = "s\<lparr>todos := ts, last_mtime := cur,
        selected :=
          (if truthy (selected_id s) then
             (case find_by_id (selected_id s) ts of
                Some k \<Rightarrow> k
              | None \<Rightarrow> if ts = [] then 0 else min (selected s) (length ts - 1))
           else if ts = [] then selected s else 0),
        selected_id :=
          (if truthy (selected_id s) then
             (if ts = [] then None else selected_id s)
           else if ts = [] then selected_id s else tid (ts ! 0))\<rparr>"
  have c1: "reload_check cur w s = (snd (load_todos w), Inr ?s')" using r l by simp
  have c2: "?s'\<lparr>selected := 0, selected_id := None\<rparr>
         = s\<lparr>todos := fst (load_todos w), last_mtime := cur, selected := 0,
              selected_id := None\<rparr>" using l by simp
  have t: "todos ?s' = ts" by simp
  have c3: "\<forall>i k. selected_id s = Some i \<and> i \<noteq> [] \<and> k < length (todos ?s')
               \<and> tid (todos ?s' ! k) = Some i \<and> (\<forall>j<k. tid (todos ?s' ! j) \<noteq> Some i)
            \<longrightarrow> selected_id ?s' = Some i \<and> selected ?s' = k"
  proof (intro allI impI)
    fix i k
    assume h: "selected_id s = Some i \<and> i \<noteq> [] \<and> k < length (todos ?s')
               \<and> tid (todos ?s' ! k) = Some i \<and> (\<forall>j<k. tid (todos ?s' ! j) \<noteq> Some i)"
    then have "find_by_id (Some i) ts = Some k"
      using find_by_id_first[of k ts "Some i"] by simp
    moreover have "ts \<noteq> []" using h by auto
    moreover have "truthy (selected_id s)" using h by (simp add: truthy_iff)
    ultimately show "selected_id ?s' = Some i \<and> selected ?s' = k" using h by simp
  qed
  have c4: "todos ?s' = [] \<and> (\<exists>i. selected_id s = Some i \<and> i \<noteq> [])
            \<longrightarrow> selected_id ?s' = None \<and> selected ?s' = 0"
    by (auto simp: truthy_iff)
  have c5: "todos ?s' = [] \<and> \<not> (\<exists>i. selected_id s = Some i \<and> i \<noteq> [])
            \<longrightarrow> selected_id ?s' = selected_id s \<and> selected ?s' = selected s"
    by (auto simp: truthy_iff)
  have c6: "todos ?s' \<noteq> [] \<and> \<not> (\<exists>i. selected_id s = Some i \<and> i \<noteq> [])
            \<longrightarrow> selected_id ?s' = tid (todos ?s' ! 0) \<and> selected ?s' = 0"
    by (auto simp: truthy_iff)
  have c7: "\<forall>i. selected_id s = Some i \<and> i \<noteq> [] \<and> Some i \<notin> tid ` set (todos ?s')
               \<and> todos ?s' \<noteq> []
            \<longrightarrow> selected ?s' = min (selected s) (length (todos ?s') - 1)"
  proof (intro allI impI)
    fix i
    assume h: "selected_id s = Some i \<and> i \<noteq> [] \<and> Some i \<notin> tid ` set (todos ?s')
               \<and> todos ?s' \<noteq> []"
    then have "find_by_id (selected_id s) ts = None" by (simp add: find_by_id_None)
    moreover have "truthy (selected_id s)" using h by (simp add: truthy_iff)
    ultimately show "selected ?s' = min (selected s) (length (todos ?s') - 1)"
      using h by simp
  qed
  show ?thesis
    apply (rule exI[of _ ?s'])
    apply (intro conjI)
          apply (rule c1)
         apply (rule c2)
        apply (rule c3)
       apply (rule c4)
      apply (rule c5)
     apply (rule c6)
    apply (rule c7)
    done
qed

theorem reload_reconcile_witness:
  "(case snd (reload_check 1
        \<lparr>todo_file = Some [\<lparr>tid = Some ''a'', task = ''Work: x'', tdone = Some False, extra = []\<rparr>,
                            \<lparr>tid = Some ''b'', task = ''Solo'', tdone = Some False, extra = []\<rparr>],
           uuid_src = (\<lambda>n. ''u''), uuid_ctr = 0\<rparr>
        \<lparr>todos = [\<lparr>tid = Some ''b'', task = ''Solo'', tdone = Some False, extra = []\<rparr>],
           last_mtime = 0, just_saved = False, selected = 0,
           selected_id = Some ''b'', selected_type = SelTodo, selected_group = None,
           input_text = [], cursor_pos = 0, input_mode = False, editing_id = None,
           collapsed_groups = {}, show_help = False, hide_completed = False\<rparr>) of
      Inl e \<Rightarrow> False
    | Inr s' \<Rightarrow> selected_id s' = Some ''b'' \<and> selected s' = 1 \<and> length (todos s') = 2)
   \<and> (case snd (reload_check 1
        \<lparr>todo_file = Some [\<lparr>tid = Some ''a'', task = ''Work: x'', tdone = Some False, extra = []\<rparr>,
                            \<lparr>tid = Some ''b'', task = ''Solo'', tdone = Some False, extra = []\<rparr>],
           uuid_src = (\<lambda>n. ''u''), uuid_ctr = 0\<rparr>
        \<lparr>todos = [\<lparr>tid = Some ''z'', task = ''Gone'', tdone = Some False, extra = []\<rparr>],
           last_mtime = 0, just_saved = False, selected = 5,
           selected_id = Some ''z'', selected_type = SelTodo, selected_group = None,
           input_text = [], cursor_pos = 0, input_mode = False, editing_id = None,
           collapsed_groups = {}, show_help = False, hide_completed = False\<rparr>) of
      Inl e \<Rightarrow> False
    | Inr s' \<Rightarrow> selected s' = 1 \<and> length (todos s') = 2)"
proof -
  let ?w = "\<lparr>todo_file = Some [\<lparr>tid = Some ''a'', task = ''Work: x'', tdone = Some False, extra = []\<rparr>,
                            \<lparr>tid = Some ''b'', task = ''Solo'', tdone = Some False, extra = []\<rparr>],
           uuid_src = (\<lambda>n. ''u''), uuid_ctr = 0\<rparr>"
  let ?s = "\<lparr>todos = [\<lparr>tid = Some ''b'', task = ''Solo'', tdone = Some False, extra = []\<rparr>],
           last_mtime = 0, just_saved = False, selected = 0,
           selected_id = Some ''b'', selected_type = SelTodo, selected_group = None,
           input_text = [], cursor_pos = 0, input_mode = False, editing_id = None,
           collapsed_groups = {}, show_help = False, hide_completed = False\<rparr>"
  let ?g = "\<lparr>todos = [\<lparr>tid = Some ''z'', task = ''Gone'', tdone = Some False, extra = []\<rparr>],
           last_mtime = 0, just_saved = False, selected = 5,
           selected_id = Some ''z'', selected_type = SelTodo, selected_group = None,
           input_text = [], cursor_pos = 0, input_mode = False, editing_id = None,
           collapsed_groups = {}, show_help = False, hide_completed = False\<rparr>"
  have h1: "\<not> just_saved ?s" "\<not> just_saved ?g" by simp_all
  have h2: "last_mtime ?s < 1" "last_mtime ?g < 1" by simp_all
  have ld: "fst (load_todos ?w) =
      [\<lparr>tid = Some ''a'', task = ''Work: x'', tdone = Some False, extra = []\<rparr>,
       \<lparr>tid = Some ''b'', task = ''Solo'', tdone = Some False, extra = []\<rparr>]"
    by code_simp
  have first: "(case snd (reload_check 1 ?w ?s) of Inl e \<Rightarrow> False
    | Inr s' \<Rightarrow> selected_id s' = Some ''b'' \<and> selected s' = 1 \<and> length (todos s') = 2)"
  proof -
    from reload_reconcile[OF h1(1) h2(1), of ?w] obtain s' where
      r: "reload_check 1 ?w ?s = (snd (load_todos ?w), Inr s')" and
      t: "s'\<lparr>selected := 0, selected_id := None\<rparr>
         = ?s\<lparr>todos := fst (load_todos ?w), last_mtime := 1, selected := 0,
              selected_id := None\<rparr>" and
      k: "\<forall>i k. selected_id ?s = Some i \<and> i \<noteq> [] \<and> k < length (todos s')
               \<and> tid (todos s' ! k) = Some i \<and> (\<forall>j<k. tid (todos s' ! j) \<noteq> Some i)
            \<longrightarrow> selected_id s' = Some i \<and> selected s' = k"
      by blast
    from t have "todos (s'\<lparr>selected := 0, selected_id := None\<rparr>) = fst (load_todos ?w)"
      by simp
    then have td: "todos s' = fst (load_todos ?w)" by simp
    have "selected_id ?s = Some ''b'' \<and> ''b'' \<noteq> [] \<and> 1 < length (todos s')
        \<and> tid (todos s' ! 1) = Some ''b'' \<and> (\<forall>j<1. tid (todos s' ! j) \<noteq> Some ''b'')"
      unfolding td ld by simp
    with k have "selected_id s' = Some ''b'' \<and> selected s' = 1" by blast
    then show ?thesis using r td ld by simp
  qed
  have second: "(case snd (reload_check 1 ?w ?g) of Inl e \<Rightarrow> False
    | Inr s' \<Rightarrow> selected s' = 1 \<and> length (todos s') = 2)"
  proof -
    from reload_reconcile[OF h1(2) h2(2), of ?w] obtain s' where
      r: "reload_check 1 ?w ?g = (snd (load_todos ?w), Inr s')" and
      t: "s'\<lparr>selected := 0, selected_id := None\<rparr>
         = ?g\<lparr>todos := fst (load_todos ?w), last_mtime := 1, selected := 0,
              selected_id := None\<rparr>" and
      k: "\<forall>i. selected_id ?g = Some i \<and> i \<noteq> [] \<and> Some i \<notin> tid ` set (todos s')
               \<and> todos s' \<noteq> []
            \<longrightarrow> selected s' = min (selected ?g) (length (todos s') - 1)"
      by blast
    from t have "todos (s'\<lparr>selected := 0, selected_id := None\<rparr>) = fst (load_todos ?w)"
      by simp
    then have td: "todos s' = fst (load_todos ?w)" by simp
    have "selected_id ?g = Some ''z'' \<and> ''z'' \<noteq> [] \<and> Some ''z'' \<notin> tid ` set (todos s')
        \<and> todos s' \<noteq> []"
      unfolding td ld by simp
    with k have "selected s' = min (selected ?g) (length (todos s') - 1)" by blast
    then have "selected s' = 1" unfolding td ld by simp
    then show ?thesis using r td ld by simp
  qed
  from first second show ?thesis by (rule conjI)
qed

text \<open>
  C5 as written falls back to the first entry of the selectable list when the focus is
  gone. Here the focused id \<^verbatim>\<open>z\<close> at row 1 is not in the reloaded collection; the
  selectable list is the three items; after the reload the selected id is still \<^verbatim>\<open>z\<close>
  and the row is still 1 (the item \<^verbatim>\<open>b\<close>), neither of which is the first entry \<^verbatim>\<open>a\<close>.
\<close>

theorem reload_reconcile_counterexample:
  "(case snd (reload_check 1
        \<lparr>todo_file = Some [\<lparr>tid = Some ''a'', task = ''Alpha'', tdone = Some False, extra = []\<rparr>,
                            \<lparr>tid = Some ''b'', task = ''Beta'', tdone = Some False, extra = []\<rparr>,
                            \<lparr>tid = Some ''c'', task = ''Gamma'', tdone = Some False, extra = []\<rparr>],
           uuid_src = (\<lambda>n. ''u''), uuid_ctr = 0\<rparr>
        \<lparr>todos = [\<lparr>tid = Some ''a'', task = ''Alpha'', tdone = Some False, extra = []\<rparr>,
                   \<lparr>tid = Some ''z'', task = ''Gone'', tdone = Some False, extra = []\<rparr>],
           last_mtime = 0, just_saved = False, selected = 1,
           selected_id = Some ''z'', selected_type = SelTodo, selected_group = None,
           input_text = [], cursor_pos = 0, input_mode = False, editing_id = None,
           collapsed_groups = {}, show_help = False, hide_completed = False\<rparr>) of
      Inl e \<Rightarrow> False
    | Inr s' \<Rightarrow>
        build_selectable_items (todos s') (collapsed_groups s') (hide_completed s')
          = [Todo 0, Todo 1, Todo 2]
        \<and> map (entry_focus (todos s')) [Todo 0, Todo 1, Todo 2]
          = [FTodo (Some ''a''), FTodo (Some ''b''), FTodo (Some ''c'')]
        \<and> focus_of s' = FTodo (Some ''z'')
        \<and> selected s' = 1)"
  by code_simp

section \<open>Deleting\<close>

lemma key_dc_file:
  assumes "input_text s = []" "\<not> input_mode s" "selected_type s = SelTodo"
    "truthy (selected_id s)" "todos s \<noteq> []"
  shows "todo_file (fst (key_dc w s)) =
           Some (filter (\<lambda>t. tid t \<noteq> selected_id s) (fst (load_todos w)))"
  using assms
  by (simp add: key_dc_def Let_def split: prod.splits sum.splits)

lemma saved_ids:
  assumes "todo_file w = Some fs" and "\<forall>t\<in>set fs. tid t \<noteq> None"
  shows "\<exists>fs2. todo_file (save_todos cand w) = Some fs2
           \<and> tid ` set fs2 = tid ` set cand \<union> tid ` set fs"
proof -
  have "on_disk w = fs" using assms(1) by (simp add: on_disk_def)
  then have l: "fst (load_todos w) = fs" using assms(2) load_todos_all_ids[of w] by simp
  let ?fs2 = "sort_key get_sort_key (cand @ filter (\<lambda>t. tid t \<notin> tid ` set cand) fs)"
  have "todo_file (save_todos cand w) = Some ?fs2" using save_todos_file_eq[of cand w] l by simp
  moreover have "tid ` set ?fs2 = tid ` set cand \<union> tid ` set fs" by auto
  ultimately show ?thesis by blast
qed

text \<open>
  C3, as the code has it. The Delete key on a selected item reloads the file, drops every
  record with the selected id and overwrites the file without merging, so the id is absent
  from the file afterwards. Nothing records the deletion: after a later merge-on-save by any
  session, the id is in the file exactly when the candidate that session saves contains it.
  A candidate without the id does not bring it back; a stale candidate that still has it
  does.
\<close>

theorem delete_then_merge:
  assumes "input_text s = []" and "\<not> input_mode s" and "selected_type s = SelTodo"
    and "truthy (selected_id s)" and "todos s \<noteq> []"
  shows "\<exists>fs. todo_file (fst (key_dc w s)) = Some fs
          \<and> fs = filter (\<lambda>t. tid t \<noteq> selected_id s) (fst (load_todos w))
          \<and> selected_id s \<notin> tid ` set fs
          \<and> (\<forall>w2 cand. todo_file w2 = Some fs \<longrightarrow>
                (\<exists>fs2. todo_file (save_todos cand w2) = Some fs2
                   \<and> (selected_id s \<in> tid ` set fs2 \<longleftrightarrow> selected_id s \<in> tid ` set cand)))"
proof -
  let ?fs = "filter (\<lambda>t. tid t \<noteq> selected_id s) (fst (load_todos w))"
  have f: "todo_file (fst (key_dc w s)) = Some ?fs" using key_dc_file[OF assms] .
  have n: "selected_id s \<notin> tid ` set ?fs" by auto
  have ids: "\<forall>t\<in>set ?fs. tid t \<noteq> None" using load_todos_ids by auto
  have m: "\<exists>fs2. todo_file (save_todos cand w2) = Some fs2
             \<and> (selected_id s \<in> tid ` set fs2 \<longleftrightarrow> selected_id s \<in> tid ` set cand)"
    if "todo_file w2 = Some ?fs" for w2 cand
  proof -
    from saved_ids[OF that ids, of cand] obtain fs2 where
      "todo_file (save_todos cand w2) = Some fs2"
      "tid ` set fs2 = tid ` set cand \<union> tid ` set ?fs" by blast
    then show ?thesis using n by blast
  qed
  from f n m show ?thesis by blast
qed

theorem delete_then_merge_witness:
  "todo_file (fst (key_dc
      \<lparr>todo_file = Some [\<lparr>tid = Some ''i'', task = ''Work: x'', tdone = Some False, extra = []\<rparr>,
                          \<lparr>tid = Some ''k'', task = ''Solo'', tdone = Some False, extra = []\<rparr>],
         uuid_src = (\<lambda>n. ''u''), uuid_ctr = 0\<rparr>
      \<lparr>todos = [\<lparr>tid = Some ''i'', task = ''Work: x'', tdone = Some False, extra = []\<rparr>,
                 \<lparr>tid = Some ''k'', task = ''Solo'', tdone = Some False, extra = []\<rparr>],
         last_mtime = 0, just_saved = False, selected = 0,
         selected_id = Some ''i'', selected_type = SelTodo, selected_group = None,
         input_text = [], cursor_pos = 0, input_mode = False, editing_id = None,
         collapsed_groups = {}, show_help = False, hide_completed = False\<rparr>))
     = Some [\<lparr>tid = Some ''k'', task = ''Solo'', tdone = Some False, extra = []\<rparr>]
   \<and> (\<exists>fs2. todo_file (save_todos
                [\<lparr>tid = Some ''k'', task = ''Solo'', tdone = Some True, extra = []\<rparr>]
                \<lparr>todo_file = Some [\<lparr>tid = Some ''k'', task = ''Solo'', tdone = Some False, extra = []\<rparr>],
                   uuid_src = (\<lambda>n. ''v''), uuid_ctr = 0\<rparr>) = Some fs2
          \<and> Some ''i'' \<notin> tid ` set fs2)"
proof -
  let ?i = "\<lparr>tid = Some ''i'', task = ''Work: x'', tdone = Some False, extra = []\<rparr>"
  let ?k = "\<lparr>tid = Some ''k'', task = ''Solo'', tdone = Some False, extra = []\<rparr>"
  let ?kd = "\<lparr>tid = Some ''k'', task = ''Solo'', tdone = Some True, extra = []\<rparr>"
  let ?w = "\<lparr>todo_file = Some [?i, ?k], uuid_src = (\<lambda>n. ''u''), uuid_ctr = 0\<rparr>"
  let ?wb = "\<lparr>todo_file = Some [?k], uuid_src = (\<lambda>n. ''v''), uuid_ctr = 0\<rparr>"
  let ?s = "\<lparr>todos = [?i, ?k], last_mtime = 0, just_saved = False, selected = 0,
         selected_id = Some ''i'', selected_type = SelTodo, selected_group = None,
         input_text = [], cursor_pos = 0, input_mode = False, editing_id = None,
         collapsed_groups = {}, show_help = False, hide_completed = False\<rparr>"
  have h: "input_text ?s = []" "\<not> input_mode ?s" "selected_type ?s = SelTodo"
    "truthy (selected_id ?s)" "todos ?s \<noteq> []" by (simp_all add: truthy_def)
  have ld: "filter (\<lambda>t. tid t \<noteq> selected_id ?s) (fst (load_todos ?w)) = [?k]" by code_simp
  from delete_then_merge[OF h, of ?w] obtain fs where
    f: "todo_file (fst (key_dc ?w ?s)) = Some fs" and
    e: "fs = filter (\<lambda>t. tid t \<noteq> selected_id ?s) (fst (load_todos ?w))" and
    m: "\<forall>w2 cand. todo_file w2 = Some fs \<longrightarrow>
                (\<exists>fs2. todo_file (save_todos cand w2) = Some fs2
                   \<and> (selected_id ?s \<in> tid ` set fs2 \<longleftrightarrow> selected_id ?s \<in> tid ` set cand))"
    by blast
  have fk: "fs = [?k]" using e ld by simp
  have "todo_file ?wb = Some fs" using fk by simp
  with m obtain fs2 where
    "todo_file (save_todos [?kd] ?wb) = Some fs2"
    "selected_id ?s \<in> tid ` set fs2 \<longleftrightarrow> selected_id ?s \<in> tid ` set [?kd]" by blast
  then have "\<exists>fs2. todo_file (save_todos [?kd] ?wb) = Some fs2 \<and> Some ''i'' \<notin> tid ` set fs2"
    by auto
  then show ?thesis using f fk by simp
qed

text \<open>
  C3 as written says the deleted id does not come back. Session A deletes \<^verbatim>\<open>i\<close>; session B,
  whose collection was loaded before and still holds \<^verbatim>\<open>i\<close>, then adds an item (Enter on
  the text \<^verbatim>\<open>new\<close>), which saves its stale collection through the merge: \<^verbatim>\<open>i\<close> is in the
  file again.
\<close>

theorem delete_then_merge_counterexample:
  "todo_file (fst (key_dc
      \<lparr>todo_file = Some [\<lparr>tid = Some ''i'', task = ''Work: x'', tdone = Some False, extra = []\<rparr>,
                          \<lparr>tid = Some ''k'', task = ''Solo'', tdone = Some False, extra = []\<rparr>],
         uuid_src = (\<lambda>n. ''u''), uuid_ctr = 0\<rparr>
      \<lparr>todos = [\<lparr>tid = Some ''i'', task = ''Work: x'', tdone = Some False, extra = []\<rparr>,
                 \<lparr>tid = Some ''k'', task = ''Solo'', tdone = Some False, extra = []\<rparr>],
         last_mtime = 0, just_saved = False, selected = 0,
         selected_id = Some ''i'', selected_type = SelTodo, selected_group = None,
         input_text = [], cursor_pos = 0, input_mode = False, editing_id = None,
         collapsed_groups = {}, show_help = False, hide_completed = False\<rparr>))
     = Some [\<lparr>tid = Some ''k'', task = ''Solo'', tdone = Some False, extra = []\<rparr>]
   \<and> todo_file (fst (key_enter
      (fst (key_dc
        \<lparr>todo_file = Some [\<lparr>tid = Some ''i'', task = ''Work: x'', tdone = Some False, extra = []\<rparr>,
                            \<lparr>tid = Some ''k'', task = ''Solo'', tdone = Some False, extra = []\<rparr>],
           uuid_src = (\<lambda>n. ''u''), uuid_ctr = 0\<rparr>
        \<lparr>todos = [\<lparr>tid = Some ''i'', task = ''Work: x'', tdone = Some False, extra = []\<rparr>,
                   \<lparr>tid = Some ''k'', task = ''Solo'', tdone = Some False, extra = []\<rparr>],
           last_mtime = 0, just_saved = False, selected = 0,
           selected_id = Some ''i'', selected_type = SelTodo, selected_group = None,
           input_text = [], cursor_pos = 0, input_mode = False, editing_id = None,
           collapsed_groups = {}, show_help = False, hide_completed = False\<rparr>))
      \<lparr>todos = [\<lparr>tid = Some ''i'', task = ''Work: x'', tdone = Some False, extra = []\<rparr>,
                 \<lparr>tid = Some ''k'', task = ''Solo'', tdone = Some False, extra = []\<rparr>],
         last_mtime = 0, just_saved = False, selected = 1,
         selected_id = Some ''k'', selected_type = SelTodo, selected_group = None,
         input_text = ''new'', cursor_pos = 3, input_mode = True, editing_id = None,
         collapsed_groups = {}, show_help = False, hide_completed = False\<rparr>))
     = Some [\<lparr>tid = Some ''i'', task = ''Work: x'', tdone = Some False, extra = []\<rparr>,
             \<lparr>tid = Some ''u'', task = ''new'', tdone = Some False, extra = []\<rparr>,
             \<lparr>tid = Some ''k'', task = ''Solo'', tdone = Some False, extra = []\<rparr>]"
  by code_simp

section \<open>Enter\<close>

subsection \<open>The edit and toggle loops\<close>

lemma startswith_before_colon:
  assumes "CHR '':'' \<notin> set p"
  shows "startswith (g @ CHR '':'' # x) p \<longleftrightarrow> startswith g p"
proof
  assume "startswith (g @ CHR '':'' # x) p"
  then obtain r where "g @ CHR '':'' # x = p @ r" by (auto simp: startswith_iff)
  then obtain us where "g = p @ us \<or> (g @ us = p \<and> CHR '':'' # x = us @ r)"
    by (auto simp: append_eq_append_conv2)
  moreover have "g = p" if "g @ us = p" "CHR '':'' # x = us @ r"
  proof (cases us)
    case Nil
    then show ?thesis using that by simp
  next
    case (Cons u us')
    then have "u = CHR '':''" using that(2) by simp
    then have "CHR '':'' \<in> set p" using that(1) Cons by auto
    then show ?thesis using assms by simp
  qed
  ultimately show "startswith g p" by (auto simp: startswith_iff)
next
  assume "startswith g p"
  then show "startswith (g @ CHR '':'' # x) p" by (auto simp: startswith_iff)
qed

lemma strip_space_Cons: "strip (CHR '' '' # s) = strip s"
  by (simp add: strip_def is_space_def)

lemma dropWhile_id: "xs = [] \<or> \<not> P (hd xs) \<Longrightarrow> dropWhile P xs = xs"
  by (cases xs) auto
lemma hd_dropWhile_rev:
  "\<not> P (hd a) \<Longrightarrow> a \<noteq> [] \<Longrightarrow> hd (rev (dropWhile P (rev a))) = hd a \<and> rev (dropWhile P (rev a)) \<noteq> []"
proof (induction a rule: rev_induct)
  case Nil then show ?case by simp
next
  case (snoc x xs)
  show ?case
  proof (cases xs)
    case Nil
    then show ?thesis using snoc.prems by simp
  next
    case (Cons y ys)
    then show ?thesis using snoc by (cases "P x") auto
  qed
qed
lemma strip_idem: "strip (strip s) = strip s"
proof -
  let ?a = "dropWhile is_space s"
  let ?b = "rev (dropWhile is_space (rev ?a))"
  have b1: "dropWhile is_space ?b = ?b"
  proof (cases "?a = []")
    case True
    show ?thesis unfolding True by simp
  next
    case False
    then have h: "\<not> is_space (hd ?a)" using hd_dropWhile[of is_space s] by simp
    from hd_dropWhile_rev[of is_space ?a, OF h False] have "hd ?b = hd ?a" by blast
    then have "\<not> is_space (hd ?b)" using h by simp
    then show ?thesis by (intro dropWhile_id) blast
  qed
  have b2: "dropWhile is_space (rev ?b) = rev ?b"
    by (simp add: dropWhile_idem)
  show ?thesis unfolding strip_def b1 b2 by simp
qed

lemma edited_task_cases:
  "edited_task orig txt =
     (if startswith orig ''!! '' then ''!! '' else if startswith orig ''! '' then ''! '' else [])
     @ (if has_colon (clean_task orig) then split_0 (clean_task orig) @ '': '' else [])
     @ txt"
proof -
  have n: "Suc (Suc (Suc 0)) = 3" "Suc (Suc 0) = 2" by simp_all
  show ?thesis
    using not_both_markers[of orig]
    by (auto simp: edited_task_def clean_task_def Let_def n)
qed

lemma edited_task_unmarked:
  assumes "\<not> startswith orig ''!! ''" "\<not> startswith orig ''! ''" "has_colon orig"
  shows "\<not> startswith (split_0 orig @ '': '' @ txt) ''!! ''"
    and "\<not> startswith (split_0 orig @ '': '' @ txt) ''! ''"
proof -
  from has_colon_decompose[OF assms(3)] have
    d: "orig = split_0 orig @ CHR '':'' # split_1 orig" by simp
  have a: "startswith (split_0 orig @ CHR '':'' # y) m \<longleftrightarrow> startswith orig m"
    if "CHR '':'' \<notin> set m" for m y
    using startswith_before_colon[OF that, of "split_0 orig" y]
      startswith_before_colon[OF that, of "split_0 orig" "split_1 orig"] d by simp
  show "\<not> startswith (split_0 orig @ '': '' @ txt) ''!! ''"
    using a[of "''!! ''" "CHR '' '' # txt"] assms(1) by simp
  show "\<not> startswith (split_0 orig @ '': '' @ txt) ''! ''"
    using a[of "''! ''" "CHR '' '' # txt"] assms(2) by simp
qed

lemma edited_task_priority:
  "get_priority (edited_task orig txt) =
     (if get_priority orig \<noteq> 0 \<or> has_colon (clean_task orig) then get_priority orig
      else get_priority txt)"
proof (cases "startswith orig ''!! ''")
  case True
  then show ?thesis
    by (simp add: edited_task_cases get_priority_def) (simp add: startswith_def)
next
  case n2: False
  show ?thesis
  proof (cases "startswith orig ''! ''")
    case True
    then show ?thesis using n2
      by (simp add: edited_task_cases get_priority_def) (simp add: startswith_def)
  next
    case n1: False
    have c: "clean_task orig = orig" using n1 n2 by (simp add: clean_task_def)
    show ?thesis
    proof (cases "has_colon orig")
      case True
      from edited_task_unmarked[OF n2 n1 True, of "txt"] show ?thesis
        using n1 n2 c True by (simp add: edited_task_cases get_priority_def)
    next
      case False
      then show ?thesis using n1 n2 c by (simp add: edited_task_cases get_priority_def)
    qed
  qed
qed

lemma edited_task_clean:
  "clean_task (edited_task orig txt) =
     (if has_colon (clean_task orig) then split_0 (clean_task orig) @ '': '' @ txt
      else if get_priority orig \<noteq> 0 then txt else clean_task txt)"
proof (cases "startswith orig ''!! ''")
  case True
  then show ?thesis
    by (simp add: edited_task_cases get_priority_def clean_task_def) (simp add: startswith_def)
next
  case n2: False
  show ?thesis
  proof (cases "startswith orig ''! ''")
    case True
    then show ?thesis using n2
      by (simp add: edited_task_cases get_priority_def clean_task_def) (simp add: startswith_def)
  next
    case n1: False
    have c: "clean_task orig = orig" using n1 n2 by (simp add: clean_task_def)
    show ?thesis
    proof (cases "has_colon orig")
      case True
      from edited_task_unmarked[OF n2 n1 True, of "txt"] show ?thesis
        using n1 n2 c True by (simp add: edited_task_cases get_priority_def clean_task_def)
    next
      case False
      then show ?thesis using n1 n2 c by (simp add: edited_task_cases get_priority_def)
    qed
  qed
qed

lemma edited_grouped:
  assumes "has_colon (clean_task (task t))"
  shows "get_todo_group (t\<lparr>task := edited_task (task t) txt\<rparr>) = get_todo_group t"
    and "display_text (t\<lparr>task := edited_task (task t) txt\<rparr>) = strip txt"
proof -
  let ?c = "clean_task (task t)"
  have n: "CHR '':'' \<notin> set (split_0 ?c)" using has_colon_decompose[OF assms] by simp
  have e: "clean_task (edited_task (task t) txt) = split_0 ?c @ CHR '':'' # (CHR '' '' # txt)"
    using assms by (simp add: edited_task_clean)
  note sp = split_at_first_colon[OF e n]
  show "get_todo_group (t\<lparr>task := edited_task (task t) txt\<rparr>) = get_todo_group t"
    using sp assms by (simp add: get_todo_group_def)
  show "display_text (t\<lparr>task := edited_task (task t) txt\<rparr>) = strip txt"
    using sp by (simp add: display_text_def strip_space_Cons)
qed

lemma edited_ungrouped:
  assumes "\<not> has_colon (clean_task (task t))" and "\<not> has_colon txt"
    and "get_priority (task t) \<noteq> 0 \<or> get_priority txt = 0"
  shows "get_todo_group (t\<lparr>task := edited_task (task t) txt\<rparr>) = ungrouped"
    and "display_text (t\<lparr>task := edited_task (task t) txt\<rparr>) = txt"
proof -
  have "get_priority txt = 0 \<Longrightarrow> clean_task txt = txt"
    by (simp add: get_priority_def clean_task_def split: if_splits)
  then have e: "clean_task (edited_task (task t) txt) = txt"
    using assms(1,3) by (auto simp: edited_task_clean)
  show "get_todo_group (t\<lparr>task := edited_task (task t) txt\<rparr>) = ungrouped"
    using e assms(2) by (simp add: get_todo_group_def)
  show "display_text (t\<lparr>task := edited_task (task t) txt\<rparr>) = txt"
    using e assms(2) by (simp add: display_text_def)
qed

lemma edit_todo_update:
  "find_by_id x ts = Some k \<Longrightarrow>
     edit_todo x txt ts = ts[k := (ts ! k)\<lparr>task := edited_task (task (ts ! k)) txt\<rparr>]"
  by (induction ts arbitrary: k) (auto split: if_splits)

lemma edit_todo_none: "find_by_id x ts = None \<Longrightarrow> edit_todo x txt ts = ts"
  by (induction ts) (auto split: if_splits)

lemma toggle_todo_update:
  "find_by_id x ts = Some k \<Longrightarrow> tdone (ts ! k) = Some b \<Longrightarrow>
     toggle_todo x ts = Inr (ts[k := (ts ! k)\<lparr>tdone := Some (\<not> b)\<rparr>], \<not> b)"
  by (induction ts arbitrary: k) (auto split: if_splits)

lemma toggle_todo_none: "find_by_id x ts = None \<Longrightarrow> toggle_todo x ts = Inr (ts, False)"
  by (induction ts) (auto split: if_splits)

lemma edit_todo_ids: "map tid (edit_todo x txt ts) = map tid ts"
  by (induction ts) auto

lemma toggle_todo_ids: "toggle_todo x ts = Inr (ts', c) \<Longrightarrow> map tid ts' = map tid ts"
  by (induction ts arbitrary: ts' c) (auto split: if_splits option.splits sum.splits)

lemma save_same_ids:
  assumes "\<forall>t\<in>set (on_disk w). tid t \<noteq> None" and "map tid ts1 = map tid (on_disk w)"
  shows "todo_file (save_todos ts1 w) = Some (sort_key get_sort_key ts1)"
proof -
  have l: "fst (load_todos w) = on_disk w" using assms(1) by (simp add: load_todos_all_ids)
  have "tid ` set ts1 = tid ` set (on_disk w)" using assms(2) by (metis set_map)
  then have "filter (\<lambda>t. tid t \<notin> tid ` set ts1) (on_disk w) = []"
    by (auto simp: filter_empty_conv)
  then show ?thesis using save_todos_file_eq[of ts1 w] l by simp
qed

lemma save_edit_file:
  assumes "\<forall>t\<in>set (on_disk w). tid t \<noteq> None"
  shows "todo_file (fst (save_edit w s)) =
     Some (sort_key get_sort_key (edit_todo (editing_id s) (strip (input_text s)) (on_disk w)))"
proof -
  have l: "load_todos w = (on_disk w, w)" using assms by (rule load_todos_all_ids)
  let ?ts1 = "edit_todo (editing_id s) (strip (input_text s)) (on_disk w)"
  have f: "todo_file (save_todos ?ts1 w) = Some (sort_key get_sort_key ?ts1)"
    using save_same_ids[OF assms edit_todo_ids] .
  have "todo_file (snd (load_todos (save_todos ?ts1 w))) = todo_file (save_todos ?ts1 w)"
    by (rule load_todos_world)
  then show ?thesis using l f
    by (auto simp: save_edit_def Let_def split: prod.splits)
qed

lemma toggle_selected_file:
  assumes "\<forall>t\<in>set (on_disk w). tid t \<noteq> None"
    and "toggle_todo (selected_id s) (on_disk w) = Inr (ts1, c)"
  shows "todo_file (fst (toggle_selected w s)) = Some (sort_key get_sort_key ts1)"
proof -
  have l: "load_todos w = (on_disk w, w)" using assms(1) by (rule load_todos_all_ids)
  have f: "todo_file (save_todos ts1 w) = Some (sort_key get_sort_key ts1)"
    using save_same_ids[OF assms(1) toggle_todo_ids[OF assms(2)]] .
  have "todo_file (snd (load_todos (save_todos ts1 w))) = todo_file (save_todos ts1 w)"
    by (rule load_todos_world)
  then show ?thesis using l f assms(2)
    by (auto simp: toggle_selected_def Let_def split: prod.splits)
qed

subsection \<open>Blank input\<close>

lemma strip_empty_iff: "strip s = [] \<longleftrightarrow> (\<forall>c\<in>set s. is_space c)"
proof
  assume "strip s = []"
  then have a: "\<forall>c\<in>set (dropWhile is_space s). is_space c"
    by (simp add: strip_def dropWhile_eq_Nil_conv)
  have "dropWhile is_space s = []"
  proof (rule ccontr)
    assume n: "dropWhile is_space s \<noteq> []"
    then have "\<not> is_space (hd (dropWhile is_space s))" using hd_dropWhile[of is_space s] by simp
    moreover have "hd (dropWhile is_space s) \<in> set (dropWhile is_space s)" using n by simp
    ultimately show False using a by blast
  qed
  then show "\<forall>c\<in>set s. is_space c" by (simp add: dropWhile_eq_Nil_conv)
next
  assume "\<forall>c\<in>set s. is_space c"
  then have d: "dropWhile is_space s = []" by (simp add: dropWhile_eq_Nil_conv)
  show "strip s = []" unfolding strip_def d by simp
qed

lemma backfill_fields:
  "backfill U n ts = (r, m) \<Longrightarrow>
     map (\<lambda>t. (task t, extra t)) r = map (\<lambda>t. (task t, extra t)) ts"
  by (induction ts arbitrary: n r m) (auto split: option.splits prod.splits)

lemma load_todos_fields:
  "(\<lambda>t. (task t, extra t)) ` set (fst (load_todos w)) = (\<lambda>t. (task t, extra t)) ` set (on_disk w)"
proof (cases "todo_file w")
  case None
  then show ?thesis by (simp add: load_todos_def on_disk_def)
next
  case (Some ts)
  obtain r m where b: "backfill (uuid_src w) (uuid_ctr w) ts = (r, m)" by force
  have "set (map (\<lambda>t. (task t, extra t)) r) = set (map (\<lambda>t. (task t, extra t)) ts)"
    using backfill_fields[OF b] by simp
  then show ?thesis using Some b by (simp add: load_todos_def on_disk_def)
qed

lemma toggle_todo_fields:
  "toggle_todo x ts = Inr (ts', c) \<Longrightarrow>
     map (\<lambda>t. (task t, extra t)) ts' = map (\<lambda>t. (task t, extra t)) ts"
  by (induction ts arbitrary: ts' c) (auto split: if_splits option.splits sum.splits)

lemma on_disk_load: "on_disk (snd (load_todos w)) = on_disk w"
  using load_todos_world(1)[of w] by (simp add: on_disk_def)

lemma save_todos_fields:
  assumes "(\<lambda>t. (task t, extra t)) ` set ts1 = (\<lambda>t. (task t, extra t)) ` set (on_disk w)"
  shows "(\<lambda>t. (task t, extra t)) ` set (on_disk (save_todos ts1 w))
           = (\<lambda>t. (task t, extra t)) ` set (on_disk w)"
proof -
  let ?f = "\<lambda>t. (task t, extra t)"
  let ?new = "filter (\<lambda>t. tid t \<notin> tid ` set ts1) (fst (load_todos w))"
  have "on_disk (save_todos ts1 w) = sort_key get_sort_key (ts1 @ ?new)"
    by (simp add: on_disk_def save_todos_file_eq)
  then have "?f ` set (on_disk (save_todos ts1 w)) = ?f ` set ts1 \<union> ?f ` set ?new"
    by (simp add: image_Un)
  moreover have "?f ` set ?new \<subseteq> ?f ` set (on_disk w)"
    using load_todos_fields[of w] by auto
  ultimately show ?thesis using assms by auto
qed

lemma toggle_selected_fields:
  "(\<lambda>t. (task t, extra t)) ` set (on_disk (fst (toggle_selected w s)))
     = (\<lambda>t. (task t, extra t)) ` set (on_disk w)"
proof -
  let ?f = "\<lambda>t. (task t, extra t)"
  obtain ts w1 where l: "load_todos w = (ts, w1)" by force
  have w1: "on_disk w1 = on_disk w" using on_disk_load[of w] l by simp
  have ts: "?f ` set ts = ?f ` set (on_disk w)" using load_todos_fields[of w] l by simp
  show ?thesis
  proof (cases "toggle_todo (selected_id s) ts")
    case (Inl e)
    then show ?thesis using l w1 by (simp add: toggle_selected_def)
  next
    case (Inr p)
    obtain ts1 c where p: "p = (ts1, c)" by (cases p)
    have "map ?f ts1 = map ?f ts"
      using toggle_todo_fields[of "selected_id s" ts ts1 c] Inr p by simp
    then have "set (map ?f ts1) = set (map ?f ts)" by (rule arg_cong)
    then have "?f ` set ts1 = ?f ` set ts" by (simp only: set_map)
    then have "?f ` set ts1 = ?f ` set (on_disk w1)" using ts w1 by simp
    then have sv: "?f ` set (on_disk (save_todos ts1 w1)) = ?f ` set (on_disk w)"
      using save_todos_fields[of ts1 w1] w1 by simp
    have "fst (toggle_selected w s) = snd (load_todos (save_todos ts1 w1))"
      using l Inr p by (auto simp: toggle_selected_def Let_def split: prod.splits)
    then show ?thesis using sv on_disk_load[of "save_todos ts1 w1"] by simp
  qed
qed

text \<open>
  C8, as the code has it. Let the text of the input field be empty after trimming, that
  is, consist of white space only. Enter then neither creates an item nor edits a task:
  the task texts and extra fields found in the file are the same before and after. When
  the session is in input mode, or holds no items, or has no item selected, Enter does
  nothing at all: the file, the source of ids and the whole session are as before.
  Otherwise, outside input mode with an item selected, Enter is the toggle gesture and the
  file is written: when every record in the file has an id and the first record with the
  selected id has a done flag, the file afterwards is the collection with that flag
  flipped, in sorted order.
\<close>

theorem empty_text_rejected:
  assumes "\<forall>c\<in>set (input_text s). is_space c"
  shows "(input_mode s \<or> todos s = [] \<or> selected_type s \<noteq> SelTodo
            \<or> \<not> (\<exists>i. selected_id s = Some i \<and> i \<noteq> [])
          \<longrightarrow> key_enter w s = (w, Inr s))
       \<and> (\<lambda>t. (task t, extra t)) ` set (on_disk (fst (key_enter w s)))
           = (\<lambda>t. (task t, extra t)) ` set (on_disk w)
       \<and> (\<forall>i k b. \<not> input_mode s \<and> todos s \<noteq> [] \<and> selected_type s = SelTodo
              \<and> selected_id s = Some i \<and> i \<noteq> []
              \<and> (\<forall>u\<in>set (on_disk w). tid u \<noteq> None)
              \<and> k < length (on_disk w) \<and> tid (on_disk w ! k) = Some i
              \<and> (\<forall>j<k. tid (on_disk w ! j) \<noteq> Some i)
              \<and> tdone (on_disk w ! k) = Some b
          \<longrightarrow> todo_file (fst (key_enter w s))
                = Some (sort_key get_sort_key
                     ((on_disk w)[k := (on_disk w ! k)\<lparr>tdone := Some (\<not> b)\<rparr>])))"
proof -
  have e: "strip (input_text s) = []" using assms by (simp add: strip_empty_iff)
  have ke: "key_enter w s =
      (if todos s \<noteq> [] \<and> \<not> input_mode s \<and> selected_type s = SelTodo
            \<and> truthy (selected_id s)
       then toggle_selected w s else (w, Inr s))"
    using e by (simp add: key_enter_def)
  have c1: "input_mode s \<or> todos s = [] \<or> selected_type s \<noteq> SelTodo
            \<or> \<not> (\<exists>i. selected_id s = Some i \<and> i \<noteq> [])
          \<longrightarrow> key_enter w s = (w, Inr s)"
    unfolding ke truthy_iff by auto
  have c2: "(\<lambda>t. (task t, extra t)) ` set (on_disk (fst (key_enter w s)))
           = (\<lambda>t. (task t, extra t)) ` set (on_disk w)"
    unfolding ke using toggle_selected_fields[of w s] by simp
  have c3: "\<forall>i k b. \<not> input_mode s \<and> todos s \<noteq> [] \<and> selected_type s = SelTodo
              \<and> selected_id s = Some i \<and> i \<noteq> []
              \<and> (\<forall>u\<in>set (on_disk w). tid u \<noteq> None)
              \<and> k < length (on_disk w) \<and> tid (on_disk w ! k) = Some i
              \<and> (\<forall>j<k. tid (on_disk w ! j) \<noteq> Some i)
              \<and> tdone (on_disk w ! k) = Some b
          \<longrightarrow> todo_file (fst (key_enter w s))
                = Some (sort_key get_sort_key
                     ((on_disk w)[k := (on_disk w ! k)\<lparr>tdone := Some (\<not> b)\<rparr>]))"
  proof (intro allI impI)
    fix i k b
    assume h: "\<not> input_mode s \<and> todos s \<noteq> [] \<and> selected_type s = SelTodo
              \<and> selected_id s = Some i \<and> i \<noteq> []
              \<and> (\<forall>u\<in>set (on_disk w). tid u \<noteq> None)
              \<and> k < length (on_disk w) \<and> tid (on_disk w ! k) = Some i
              \<and> (\<forall>j<k. tid (on_disk w ! j) \<noteq> Some i)
              \<and> tdone (on_disk w ! k) = Some b"
    then have f: "find_by_id (selected_id s) (on_disk w) = Some k"
      using find_by_id_first[of k "on_disk w" "Some i"] by simp
    have t: "toggle_todo (selected_id s) (on_disk w)
        = Inr ((on_disk w)[k := (on_disk w ! k)\<lparr>tdone := Some (\<not> b)\<rparr>], \<not> b)"
      using toggle_todo_update[OF f] h by simp
    have "key_enter w s = toggle_selected w s" unfolding ke truthy_iff using h by simp
    then show "todo_file (fst (key_enter w s))
                = Some (sort_key get_sort_key
                     ((on_disk w)[k := (on_disk w ! k)\<lparr>tdone := Some (\<not> b)\<rparr>]))"
      using toggle_selected_file[OF _ t] h by simp
  qed
  show ?thesis
    apply (intro conjI)
      apply (rule c1)
     apply (rule c2)
    apply (rule c3)
    done
qed

theorem empty_text_rejected_witness:
  "key_enter
      \<lparr>todo_file = Some [\<lparr>tid = Some ''a'', task = ''Work: x'', tdone = Some False, extra = []\<rparr>],
         uuid_src = (\<lambda>n. ''u''), uuid_ctr = 0\<rparr>
      \<lparr>todos = [\<lparr>tid = Some ''a'', task = ''Work: x'', tdone = Some False, extra = []\<rparr>],
         last_mtime = 0, just_saved = False, selected = 0,
         selected_id = Some ''a'', selected_type = SelTodo, selected_group = None,
         input_text = [CHR '' '', CHR 0x09, CHR '' ''], cursor_pos = 3, input_mode = True,
         editing_id = Some ''a'',
         collapsed_groups = {}, show_help = False, hide_completed = False\<rparr>
   = (\<lparr>todo_file = Some [\<lparr>tid = Some ''a'', task = ''Work: x'', tdone = Some False, extra = []\<rparr>],
         uuid_src = (\<lambda>n. ''u''), uuid_ctr = 0\<rparr>,
      Inr \<lparr>todos = [\<lparr>tid = Some ''a'', task = ''Work: x'', tdone = Some False, extra = []\<rparr>],
         last_mtime = 0, just_saved = False, selected = 0,
         selected_id = Some ''a'', selected_type = SelTodo, selected_group = None,
         input_text = [CHR '' '', CHR 0x09, CHR '' ''], cursor_pos = 3, input_mode = True,
         editing_id = Some ''a'',
         collapsed_groups = {}, show_help = False, hide_completed = False\<rparr>)
   \<and> todo_file (fst (key_enter
      \<lparr>todo_file = Some [\<lparr>tid = Some ''a'', task = ''Work: x'', tdone = Some False, extra = []\<rparr>],
         uuid_src = (\<lambda>n. ''u''), uuid_ctr = 0\<rparr>
      \<lparr>todos = [\<lparr>tid = Some ''a'', task = ''Work: x'', tdone = Some False, extra = []\<rparr>],
         last_mtime = 0, just_saved = False, selected = 0,
         selected_id = Some ''a'', selected_type = SelTodo, selected_group = None,
         input_text = ''  '', cursor_pos = 2, input_mode = False, editing_id = None,
         collapsed_groups = {}, show_help = False, hide_completed = False\<rparr>))
     = Some [\<lparr>tid = Some ''a'', task = ''Work: x'', tdone = Some True, extra = []\<rparr>]"
proof -
  let ?a = "\<lparr>tid = Some ''a'', task = ''Work: x'', tdone = Some False, extra = []\<rparr>"
  let ?w = "\<lparr>todo_file = Some [?a], uuid_src = (\<lambda>n. ''u''), uuid_ctr = 0\<rparr>"
  let ?s = "\<lparr>todos = [?a],
         last_mtime = 0, just_saved = False, selected = 0,
         selected_id = Some ''a'', selected_type = SelTodo, selected_group = None,
         input_text = [CHR '' '', CHR 0x09, CHR '' ''], cursor_pos = 3, input_mode = True,
         editing_id = Some ''a'',
         collapsed_groups = {}, show_help = False, hide_completed = False\<rparr>"
  let ?n = "\<lparr>todos = [?a],
         last_mtime = 0, just_saved = False, selected = 0,
         selected_id = Some ''a'', selected_type = SelTodo, selected_group = None,
         input_text = ''  '', cursor_pos = 2, input_mode = False, editing_id = None,
         collapsed_groups = {}, show_help = False, hide_completed = False\<rparr>"
  have hs: "\<forall>c\<in>set (input_text ?s). is_space c" by (simp add: is_space_def)
  have hn: "\<forall>c\<in>set (input_text ?n). is_space c" by (simp add: is_space_def)
  have m: "input_mode ?s \<or> todos ?s = [] \<or> selected_type ?s \<noteq> SelTodo
            \<or> \<not> (\<exists>i. selected_id ?s = Some i \<and> i \<noteq> [])" by simp
  have first: "key_enter ?w ?s = (?w, Inr ?s)"
    using empty_text_rejected[OF hs, of ?w, THEN conjunct1] m by (rule mp)
  have g: "\<not> input_mode ?n \<and> todos ?n \<noteq> [] \<and> selected_type ?n = SelTodo
              \<and> selected_id ?n = Some ''a'' \<and> ''a'' \<noteq> []
              \<and> (\<forall>u\<in>set (on_disk ?w). tid u \<noteq> None)
              \<and> 0 < length (on_disk ?w) \<and> tid (on_disk ?w ! 0) = Some ''a''
              \<and> (\<forall>j<0. tid (on_disk ?w ! j) \<noteq> Some ''a'')
              \<and> tdone (on_disk ?w ! 0) = Some False"
    by (simp add: on_disk_def)
  note c3 = empty_text_rejected[OF hn, of ?w, THEN conjunct2, THEN conjunct2, THEN spec,
      THEN spec, THEN spec, THEN mp, OF g]
  have srt: "sort_key get_sort_key ((on_disk ?w)[0 := (on_disk ?w ! 0)\<lparr>tdone := Some (\<not> False)\<rparr>])
      = [\<lparr>tid = Some ''a'', task = ''Work: x'', tdone = Some True, extra = []\<rparr>]"
    by (simp add: on_disk_def)
  have second: "todo_file (fst (key_enter ?w ?n))
      = Some [\<lparr>tid = Some ''a'', task = ''Work: x'', tdone = Some True, extra = []\<rparr>]"
    using c3 unfolding srt .
  from first second show ?thesis by (rule conjI)
qed

text \<open>
  C8 as written says that nothing is mutated and the file is not touched. The arrow keys
  leave input mode but keep the text of the input field; with two blanks left there and the
  item \<^verbatim>\<open>a\<close> selected, Enter marks \<^verbatim>\<open>a\<close> done and rewrites the file.
\<close>

theorem empty_text_rejected_counterexample:
  "strip ''  '' = []
   \<and> todo_file (fst (key_enter
      \<lparr>todo_file = Some [\<lparr>tid = Some ''a'', task = ''Work: x'', tdone = Some False, extra = []\<rparr>],
         uuid_src = (\<lambda>n. ''u''), uuid_ctr = 0\<rparr>
      \<lparr>todos = [\<lparr>tid = Some ''a'', task = ''Work: x'', tdone = Some False, extra = []\<rparr>],
         last_mtime = 0, just_saved = False, selected = 0,
         selected_id = Some ''a'', selected_type = SelTodo, selected_group = None,
         input_text = ''  '', cursor_pos = 2, input_mode = False, editing_id = None,
         collapsed_groups = {}, show_help = False, hide_completed = False\<rparr>))
     = Some [\<lparr>tid = Some ''a'', task = ''Work: x'', tdone = Some True, extra = []\<rparr>]"
  by code_simp

subsection \<open>Editing and toggling\<close>

lemma save_edit_writes:
  "todo_file (fst (save_edit w s))
     = todo_file (save_todos
         (edit_todo (editing_id s) (strip (input_text s)) (fst (load_todos w)))
         (snd (load_todos w)))"
proof -
  obtain ts w1 where l: "load_todos w = (ts, w1)" by force
  let ?w2 = "save_todos (edit_todo (editing_id s) (strip (input_text s)) ts) w1"
  have "todo_file (snd (load_todos ?w2)) = todo_file ?w2" by (rule load_todos_world)
  then show ?thesis using l by (auto simp: save_edit_def Let_def split: prod.splits)
qed

lemma toggle_selected_writes:
  assumes "toggle_todo (selected_id s) (fst (load_todos w)) = Inr (ts1, c)"
  shows "todo_file (fst (toggle_selected w s))
     = todo_file (save_todos ts1 (snd (load_todos w)))"
proof -
  obtain ts w1 where l: "load_todos w = (ts, w1)" by force
  have "todo_file (snd (load_todos (save_todos ts1 w1))) = todo_file (save_todos ts1 w1)"
    by (rule load_todos_world)
  then show ?thesis using l assms
    by (auto simp: toggle_selected_def Let_def split: prod.splits)
qed

lemma edited_task_shape:
  assumes "orig = m @ c"
    and "m = ''!! '' \<or> m = ''! ''
         \<or> (m = [] \<and> \<not> startswith orig ''!! '' \<and> \<not> startswith orig ''! '')"
  shows "c = g @ CHR '':'' # r \<and> CHR '':'' \<notin> set g
           \<longrightarrow> edited_task orig txt = m @ g @ '': '' @ txt"
    and "CHR '':'' \<notin> set c \<longrightarrow> edited_task orig txt = m @ txt"
proof -
  have mk: "(if startswith orig ''!! '' then ''!! ''
             else if startswith orig ''! '' then ''! '' else []) = m"
    using assms by (auto simp: startswith_def)
  have cl: "clean_task orig = c"
    using assms by (auto simp: clean_task_def startswith_def)
  show "c = g @ CHR '':'' # r \<and> CHR '':'' \<notin> set g
           \<longrightarrow> edited_task orig txt = m @ g @ '': '' @ txt"
  proof
    assume h: "c = g @ CHR '':'' # r \<and> CHR '':'' \<notin> set g"
    then have "has_colon c" "split_0 c = g"
      using split_at_first_colon[of c g r] by simp_all
    then show "edited_task orig txt = m @ g @ '': '' @ txt"
      unfolding edited_task_cases mk cl by simp
  qed
  show "CHR '':'' \<notin> set c \<longrightarrow> edited_task orig txt = m @ txt"
    unfolding edited_task_cases mk cl by (simp add: has_colon_def)
qed

text \<open>
  C9, as the code has it. The save-edit loop changes the first record with the edited id
  and no other, and of that record only the task: id, done flag and extra fields stay. The
  new task is the old priority marker, then, for a grouped record, the old text before the
  first colon followed by \<^verbatim>\<open>": "\<close>, then the trimmed input. For a grouped record the
  decoded priority and group are unchanged and the decoded text is the trimmed input. For
  an ungrouped record the same holds when the trimmed input has no colon and, if the record
  has no priority, does not itself start with a priority marker. The toggle loop changes
  the first record with the selected id and no other, and of that record only the done
  flag. Each handler runs its loop on the collection it has just loaded and saves the
  result through the merge; when every record in the file has an id, the file afterwards
  is that changed collection in sorted order.
\<close>

theorem edit_toggle_frame:
  "(find_by_id x ts = None \<longrightarrow>
       edit_todo x (strip inp) ts = ts \<and> toggle_todo x ts = Inr (ts, False))
   \<and> (\<forall>k. find_by_id x ts = Some k \<longrightarrow>
         edit_todo x (strip inp) ts
           = ts[k := (ts ! k)\<lparr>task := edited_task (task (ts ! k)) (strip inp)\<rparr>]
         \<and> (\<forall>b. tdone (ts ! k) = Some b \<longrightarrow>
               toggle_todo x ts = Inr (ts[k := (ts ! k)\<lparr>tdone := Some (\<not> b)\<rparr>], \<not> b)))
   \<and> (get_priority (task t) \<noteq> 0 \<or> has_colon (clean_task (task t))
        \<or> get_priority (strip inp) = 0 \<longrightarrow>
         get_priority (edited_task (task t) (strip inp)) = get_priority (task t))
   \<and> (has_colon (clean_task (task t)) \<longrightarrow>
         get_todo_group (t\<lparr>task := edited_task (task t) (strip inp)\<rparr>) = get_todo_group t
         \<and> display_text (t\<lparr>task := edited_task (task t) (strip inp)\<rparr>) = strip inp)
   \<and> (\<not> has_colon (clean_task (task t)) \<and> \<not> has_colon (strip inp)
        \<and> (get_priority (task t) \<noteq> 0 \<or> get_priority (strip inp) = 0) \<longrightarrow>
         get_todo_group (t\<lparr>task := edited_task (task t) (strip inp)\<rparr>) = get_todo_group t
         \<and> display_text (t\<lparr>task := edited_task (task t) (strip inp)\<rparr>) = strip inp)
   \<and> ((\<forall>u\<in>set (on_disk w). tid u \<noteq> None) \<longrightarrow>
         todo_file (fst (save_edit w s))
           = Some (sort_key get_sort_key
                (edit_todo (editing_id s) (strip (input_text s)) (on_disk w)))
         \<and> (\<forall>ts1 c. toggle_todo (selected_id s) (on_disk w) = Inr (ts1, c) \<longrightarrow>
               todo_file (fst (toggle_selected w s)) = Some (sort_key get_sort_key ts1)))
   \<and> (\<forall>m c g r. task t = m @ c
          \<and> (m = ''!! '' \<or> m = ''! ''
               \<or> (m = [] \<and> \<not> startswith (task t) ''!! '' \<and> \<not> startswith (task t) ''! ''))
        \<longrightarrow> (c = g @ CHR '':'' # r \<and> CHR '':'' \<notin> set g
               \<longrightarrow> edited_task (task t) (strip inp) = m @ g @ '': '' @ strip inp)
            \<and> (CHR '':'' \<notin> set c \<longrightarrow> edited_task (task t) (strip inp) = m @ strip inp))
   \<and> todo_file (fst (save_edit w s))
       = todo_file (save_todos
           (edit_todo (editing_id s) (strip (input_text s)) (fst (load_todos w)))
           (snd (load_todos w)))
   \<and> (\<forall>ts1 c. toggle_todo (selected_id s) (fst (load_todos w)) = Inr (ts1, c) \<longrightarrow>
         todo_file (fst (toggle_selected w s))
           = todo_file (save_todos ts1 (snd (load_todos w))))"
proof -
  have c1: "find_by_id x ts = None \<longrightarrow>
       edit_todo x (strip inp) ts = ts \<and> toggle_todo x ts = Inr (ts, False)"
    by (simp add: edit_todo_none toggle_todo_none)
  have c2: "\<forall>k. find_by_id x ts = Some k \<longrightarrow>
         edit_todo x (strip inp) ts
           = ts[k := (ts ! k)\<lparr>task := edited_task (task (ts ! k)) (strip inp)\<rparr>]
         \<and> (\<forall>b. tdone (ts ! k) = Some b \<longrightarrow>
               toggle_todo x ts = Inr (ts[k := (ts ! k)\<lparr>tdone := Some (\<not> b)\<rparr>], \<not> b))"
    by (simp add: edit_todo_update toggle_todo_update)
  have c3: "get_priority (task t) \<noteq> 0 \<or> has_colon (clean_task (task t))
        \<or> get_priority (strip inp) = 0 \<longrightarrow>
         get_priority (edited_task (task t) (strip inp)) = get_priority (task t)"
    by (auto simp: edited_task_priority)
  have c4: "has_colon (clean_task (task t)) \<longrightarrow>
         get_todo_group (t\<lparr>task := edited_task (task t) (strip inp)\<rparr>) = get_todo_group t
         \<and> display_text (t\<lparr>task := edited_task (task t) (strip inp)\<rparr>) = strip inp"
    using edited_grouped[of t "strip inp"] by (simp add: strip_idem)
  have c5: "\<not> has_colon (clean_task (task t)) \<and> \<not> has_colon (strip inp)
        \<and> (get_priority (task t) \<noteq> 0 \<or> get_priority (strip inp) = 0) \<longrightarrow>
         get_todo_group (t\<lparr>task := edited_task (task t) (strip inp)\<rparr>) = get_todo_group t
         \<and> display_text (t\<lparr>task := edited_task (task t) (strip inp)\<rparr>) = strip inp"
  proof
    assume h: "\<not> has_colon (clean_task (task t)) \<and> \<not> has_colon (strip inp)
        \<and> (get_priority (task t) \<noteq> 0 \<or> get_priority (strip inp) = 0)"
    then have "get_todo_group t = ungrouped" by (simp add: get_todo_group_def)
    then show "get_todo_group (t\<lparr>task := edited_task (task t) (strip inp)\<rparr>) = get_todo_group t
         \<and> display_text (t\<lparr>task := edited_task (task t) (strip inp)\<rparr>) = strip inp"
      using edited_ungrouped[of t "strip inp"] h by simp
  qed
  have c6: "(\<forall>u\<in>set (on_disk w). tid u \<noteq> None) \<longrightarrow>
         todo_file (fst (save_edit w s))
           = Some (sort_key get_sort_key
                (edit_todo (editing_id s) (strip (input_text s)) (on_disk w)))
         \<and> (\<forall>ts1 c. toggle_todo (selected_id s) (on_disk w) = Inr (ts1, c) \<longrightarrow>
               todo_file (fst (toggle_selected w s)) = Some (sort_key get_sort_key ts1))"
    using save_edit_file[of w s] toggle_selected_file[of w s] by blast
  have c7: "\<forall>m c g r. task t = m @ c
          \<and> (m = ''!! '' \<or> m = ''! ''
               \<or> (m = [] \<and> \<not> startswith (task t) ''!! '' \<and> \<not> startswith (task t) ''! ''))
        \<longrightarrow> (c = g @ CHR '':'' # r \<and> CHR '':'' \<notin> set g
               \<longrightarrow> edited_task (task t) (strip inp) = m @ g @ '': '' @ strip inp)
            \<and> (CHR '':'' \<notin> set c \<longrightarrow> edited_task (task t) (strip inp) = m @ strip inp)"
    using edited_task_shape[of "task t"] by blast
  have c9: "\<forall>ts1 c. toggle_todo (selected_id s) (fst (load_todos w)) = Inr (ts1, c) \<longrightarrow>
         todo_file (fst (toggle_selected w s))
           = todo_file (save_todos ts1 (snd (load_todos w)))"
    using toggle_selected_writes[of s w] by blast
  show ?thesis
    apply (intro conjI)
            apply (rule c1)
           apply (rule c2)
          apply (rule c3)
         apply (rule c4)
        apply (rule c5)
       apply (rule c6)
      apply (rule c7)
     apply (rule save_edit_writes)
    apply (rule c9)
    done
qed

theorem edit_toggle_frame_witness:
  "edit_todo (Some ''a'') (strip '' y '')
      [\<lparr>tid = Some ''a'', task = ''! Work: x'', tdone = Some False, extra = [(''due'', ''mon'')]\<rparr>,
       \<lparr>tid = Some ''b'', task = ''Solo'', tdone = Some False, extra = []\<rparr>]
     = [\<lparr>tid = Some ''a'', task = ''! Work: y'', tdone = Some False, extra = [(''due'', ''mon'')]\<rparr>,
        \<lparr>tid = Some ''b'', task = ''Solo'', tdone = Some False, extra = []\<rparr>]
   \<and> toggle_todo (Some ''a'')
      [\<lparr>tid = Some ''a'', task = ''! Work: x'', tdone = Some False, extra = [(''due'', ''mon'')]\<rparr>,
       \<lparr>tid = Some ''b'', task = ''Solo'', tdone = Some False, extra = []\<rparr>]
     = Inr ([\<lparr>tid = Some ''a'', task = ''! Work: x'', tdone = Some True, extra = [(''due'', ''mon'')]\<rparr>,
             \<lparr>tid = Some ''b'', task = ''Solo'', tdone = Some False, extra = []\<rparr>], True)
   \<and> get_priority (edited_task ''! Work: x'' (strip '' y '')) = 1
   \<and> get_todo_group (\<lparr>tid = Some ''a'', task = ''! Work: x'', tdone = Some False,
          extra = [(''due'', ''mon'')]\<rparr>\<lparr>task := edited_task ''! Work: x'' (strip '' y '')\<rparr>) = ''Work''
   \<and> display_text (\<lparr>tid = Some ''a'', task = ''! Work: x'', tdone = Some False,
          extra = [(''due'', ''mon'')]\<rparr>\<lparr>task := edited_task ''! Work: x'' (strip '' y '')\<rparr>) = ''y''"
proof -
  let ?a = "\<lparr>tid = Some ''a'', task = ''! Work: x'', tdone = Some False, extra = [(''due'', ''mon'')]\<rparr>"
  let ?b = "\<lparr>tid = Some ''b'', task = ''Solo'', tdone = Some False, extra = []\<rparr>"
  note T = edit_toggle_frame[where x = "Some ''a''" and ts = "[?a, ?b]" and inp = "'' y ''"
      and t = ?a]
  have f: "find_by_id (Some ''a'') [?a, ?b] = Some 0" by simp
  have d: "tdone ([?a, ?b] ! 0) = Some False" by simp
  have g: "has_colon (clean_task (task ?a))" by code_simp
  have p: "get_priority (task ?a) = 1" by code_simp
  have gr: "get_todo_group ?a = ''Work''" by code_simp
  have st: "strip '' y '' = ''y''" by code_simp
  have et: "edited_task ''! Work: x'' ''y'' = ''! Work: y''" by code_simp
  note c2 = T[THEN conjunct2, THEN conjunct1, THEN spec, THEN mp, OF f]
  note tg = c2[THEN conjunct2, THEN spec, THEN mp, OF d]
  note c3 = T[THEN conjunct2, THEN conjunct2, THEN conjunct1]
  note c4 = T[THEN conjunct2, THEN conjunct2, THEN conjunct2, THEN conjunct1, THEN mp, OF g]
  have e1: "edit_todo (Some ''a'') (strip '' y '') [?a, ?b]
      = [?a\<lparr>task := ''! Work: y''\<rparr>, ?b]"
    using c2[THEN conjunct1] by (simp add: st et)
  have e2: "toggle_todo (Some ''a'') [?a, ?b] = Inr ([?a\<lparr>tdone := Some True\<rparr>, ?b], True)"
    using tg by simp
  have e3: "get_priority (edited_task ''! Work: x'' (strip '' y '')) = 1"
    using c3 p by simp
  have e4: "get_todo_group (?a\<lparr>task := edited_task ''! Work: x'' (strip '' y '')\<rparr>) = ''Work''"
    "display_text (?a\<lparr>task := edited_task ''! Work: x'' (strip '' y '')\<rparr>) = ''y''"
    using c4 gr st by simp_all
  from e1 e2 e3 e4 show ?thesis by simp
qed

text \<open>
  C9 as written says an edit leaves the priority marker and the group prefix of the record
  as they were. Editing the ungrouped, unmarked item \<^verbatim>\<open>"Solo"\<close> with the text
  \<^verbatim>\<open>"!! Work: now"\<close> turns it into a high-priority item of the group \<^verbatim>\<open>Work\<close>.
\<close>

theorem edit_toggle_frame_counterexample:
  "map decoded (on_disk
      \<lparr>todo_file = Some [\<lparr>tid = Some ''a'', task = ''Solo'', tdone = Some False, extra = []\<rparr>],
         uuid_src = (\<lambda>n. ''u''), uuid_ctr = 0\<rparr>)
     = [(Some ''a'', 0, ''__ungrouped__'', ''Solo'', Some False)]
   \<and> map decoded (on_disk (fst (key_enter
      \<lparr>todo_file = Some [\<lparr>tid = Some ''a'', task = ''Solo'', tdone = Some False, extra = []\<rparr>],
         uuid_src = (\<lambda>n. ''u''), uuid_ctr = 0\<rparr>
      \<lparr>todos = [\<lparr>tid = Some ''a'', task = ''Solo'', tdone = Some False, extra = []\<rparr>],
         last_mtime = 0, just_saved = False, selected = 0,
         selected_id = Some ''a'', selected_type = SelTodo, selected_group = None,
         input_text = ''!! Work: now'', cursor_pos = 12, input_mode = True,
         editing_id = Some ''a'',
         collapsed_groups = {}, show_help = False, hide_completed = False\<rparr>)))
     = [(Some ''a'', 2, ''Work'', ''now'', Some False)]"
  by code_simp

end
